theory Spec2Isabelle
  imports Complex_Main "HOL-Library.Word" "HOL-Library.Tree" "HOL-Library.Sublist"
    "HOL-Library.List_Lexorder"
begin

section \<open>Result type and parse errors\<close>

text \<open>
  \<^verbatim>\<open>core/result.ts\<close>: \<^verbatim>\<open>Result<T, E>\<close> is the union of
  \<^verbatim>\<open>{ ok: true, value }\<close> and \<^verbatim>\<open>{ ok: false, error }\<close>, built by the functions
  \<^verbatim>\<open>ok\<close> and \<^verbatim>\<open>err\<close>.
\<close>

datatype ('t, 'e) Result = ok 't | err 'e

text \<open>\<^verbatim>\<open>core/types/index.ts\<close>: the closed set of error tags and the error record. The
  optional \<^verbatim>\<open>context\<close> bag is never set by the functions modelled here and is left out.\<close>

datatype ParseErrorType =
    FIBER_NOT_FOUND
  | INVALID_PROPS
  | MISSING_REQUIRED_FIELD
  | INVALID_MESSAGE_FORMAT
  | TRAVERSAL_FAILED
  | VERSION_MISMATCH

record ParseError =
  type :: ParseErrorType
  message :: string

section \<open>Rendering numbers as text\<close>

text \<open>
  \<^verbatim>\<open>String(n)\<close> and \<^verbatim>\<open>n.toString(radix)\<close> on an integer value: the digits of the
  magnitude in the radix, most significant first, lower-case letters above 9, and a
  leading minus sign for a negative number. The radix is 10 or 16 in the code modelled
  here (JavaScript accepts 2 to 36 and raises a \<^verbatim>\<open>RangeError\<close> otherwise; below 2 the
  function here stops at once).
\<close>

definition digit_char :: "nat \<Rightarrow> char" where
  "digit_char d = ''0123456789abcdefghijklmnopqrstuvwxyz'' ! d"

function digits_of :: "nat \<Rightarrow> nat \<Rightarrow> string" where
  "digits_of radix n =
     (if radix < 2 \<or> n < radix then [digit_char n]
      else digits_of radix (n div radix) @ [digit_char (n mod radix)])"
  by pat_completeness auto
termination
  by (relation "measure (\<lambda>(radix, n). n)") auto

definition toString :: "nat \<Rightarrow> int \<Rightarrow> string" where
  "toString radix n =
     (if n < 0 then CHR ''-'' # digits_of radix (nat (- n)) else digits_of radix (nat n))"

section \<open>Fiber nodes\<close>

text \<open>
  \<^verbatim>\<open>RawFiberNode\<close> objects are owned by the host application and refer to each other
  through \<^verbatim>\<open>return\<close>, \<^verbatim>\<open>child\<close> and \<^verbatim>\<open>sibling\<close>. A node is identified by its
  reference; the heap gives the node behind every reference, and a \<^verbatim>\<open>null\<close> link is
  \<open>None\<close>. Nothing forces the links to form a tree, so cycles are possible values.
  The traversals read only the three links; of the remaining fields the model keeps
  \<^verbatim>\<open>tag\<close> and \<^verbatim>\<open>key\<close>. A \<^verbatim>\<open>FiberPredicate\<close> receives the node object and is modelled
  as a predicate on references. The bounds \<^verbatim>\<open>maxDepth\<close> and \<^verbatim>\<open>maxNodes\<close> are integers,
  negative ones included.
\<close>

type_synonym ref = nat

record RawFiberNode =
  tag :: int
  key :: "string option"
  return :: "ref option"
  child :: "ref option"
  sibling :: "ref option"

type_synonym heap = "ref \<Rightarrow> RawFiberNode"
type_synonym FiberPredicate = "ref \<Rightarrow> bool"

subsection \<open>traverseUpwards\<close>

function traverse_up ::
  "heap \<Rightarrow> FiberPredicate \<Rightarrow> int \<Rightarrow> ref option \<Rightarrow> int \<Rightarrow> (ref, ParseError) Result" where
  "traverse_up h predicate maxDepth None depth =
     err \<lparr>type = TRAVERSAL_FAILED,
          message = ''Reached root of fiber tree without finding match''\<rparr>"
| "traverse_up h predicate maxDepth (Some current) depth =
     (if depth > maxDepth then
        err \<lparr>type = TRAVERSAL_FAILED,
             message = ''Max depth '' @ toString 10 maxDepth @
                       '' exceeded during upward traversal''\<rparr>
      else if predicate current then ok current
      else traverse_up h predicate maxDepth (return (h current)) (depth + 1))"
  by pat_completeness auto
termination
  by (relation "measure (\<lambda>(h, p, maxDepth, current, depth). nat (maxDepth + 1 - depth))") auto

definition traverseUpwards ::
  "heap \<Rightarrow> ref \<Rightarrow> FiberPredicate \<Rightarrow> int \<Rightarrow> (ref, ParseError) Result" where
  "traverseUpwards h fiberNode predicate maxDepth =
     traverse_up h predicate maxDepth (Some fiberNode) 0"

subsection \<open>traverseDownwards\<close>

function traverse_down ::
  "heap \<Rightarrow> FiberPredicate \<Rightarrow> int \<Rightarrow> ref option \<Rightarrow> int \<Rightarrow> (ref, ParseError) Result" where
  "traverse_down h predicate maxDepth None depth =
     err \<lparr>type = TRAVERSAL_FAILED, message = ''No matching node found in subtree''\<rparr>"
| "traverse_down h predicate maxDepth (Some current) depth =
     (if depth > maxDepth then
        err \<lparr>type = TRAVERSAL_FAILED,
             message = ''Max depth '' @ toString 10 maxDepth @
                       '' exceeded during downward traversal''\<rparr>
      else if predicate current then ok current
      else
        (case traverse_down h predicate maxDepth (child (h current)) (depth + 1) of
           ok found \<Rightarrow> ok found
         | err _ \<Rightarrow> traverse_down h predicate maxDepth (sibling (h current)) (depth + 1)))"
  by pat_completeness auto
termination
  by (relation "measure (\<lambda>(h, p, maxDepth, current, depth). nat (maxDepth + 1 - depth))") auto

definition traverseDownwards ::
  "heap \<Rightarrow> ref \<Rightarrow> FiberPredicate \<Rightarrow> int \<Rightarrow> (ref, ParseError) Result" where
  "traverseDownwards h fiberNode predicate maxDepth =
     traverse_down h predicate maxDepth (Some fiberNode) 0"

subsection \<open>collectNodes\<close>

text \<open>
  The inner \<^verbatim>\<open>traverse\<close> pushes onto the array \<^verbatim>\<open>results\<close> of the enclosing call; here
  it takes the array and returns it updated. It has no depth bound and recurses for ever
  on a cyclic structure that never fills the array, so it is a partial function: \<open>None\<close>
  stands for a call that does not return.
\<close>

partial_function (option) traverse_collect ::
  "heap \<Rightarrow> FiberPredicate \<Rightarrow> int \<Rightarrow> ref option \<Rightarrow> ref list \<Rightarrow> ref list option" where
  "traverse_collect h predicate maxNodes current results =
     (case current of
        None \<Rightarrow> Some results
      | Some c \<Rightarrow>
          if int (length results) \<ge> maxNodes then Some results
          else
            Option.bind
              (traverse_collect h predicate maxNodes (child (h c))
                 (if predicate c then results @ [c] else results))
              (\<lambda>results'. traverse_collect h predicate maxNodes (sibling (h c)) results'))"

definition collectNodes :: "heap \<Rightarrow> ref \<Rightarrow> FiberPredicate \<Rightarrow> int \<Rightarrow> ref list option" where
  "collectNodes h fiberNode predicate maxNodes =
     traverse_collect h predicate maxNodes (Some fiberNode) []"

text \<open>
  The same walk with every call of the predicate recorded: the second list of the state
  holds, in order, the nodes the predicate has been applied to. The first list is the
  \<^verbatim>\<open>results\<close> array as above.
\<close>

partial_function (option) traverse_collect_log ::
  "heap \<Rightarrow> FiberPredicate \<Rightarrow> int \<Rightarrow> ref option \<Rightarrow> ref list \<times> ref list \<Rightarrow>
   (ref list \<times> ref list) option" where
  "traverse_collect_log h predicate maxNodes current st =
     (case current of
        None \<Rightarrow> Some st
      | Some c \<Rightarrow>
          if int (length (fst st)) \<ge> maxNodes then Some st
          else
            Option.bind
              (traverse_collect_log h predicate maxNodes (child (h c))
                 (if predicate c then fst st @ [c] else fst st, snd st @ [c]))
              (\<lambda>st'. traverse_collect_log h predicate maxNodes (sibling (h c)) st'))"

definition collectNodes_log ::
  "heap \<Rightarrow> ref \<Rightarrow> FiberPredicate \<Rightarrow> int \<Rightarrow> (ref list \<times> ref list) option" where
  "collectNodes_log h fiberNode predicate maxNodes =
     traverse_collect_log h predicate maxNodes (Some fiberNode) ([], [])"

subsection \<open>Notions used to state the traversal properties\<close>

text \<open>The parent-link chain: the node reached from \<open>cur\<close> after \<open>k\<close> \<^verbatim>\<open>return\<close> links,
  \<open>None\<close> once a \<^verbatim>\<open>null\<close> link has been passed.\<close>

fun parent_chain :: "heap \<Rightarrow> ref option \<Rightarrow> nat \<Rightarrow> ref option" where
  "parent_chain h cur 0 = cur"
| "parent_chain h cur (Suc k) =
     (case cur of None \<Rightarrow> None | Some c \<Rightarrow> parent_chain h (return (h c)) k)"

text \<open>No node of the chain at a depth below \<open>k\<close> satisfies the predicate.\<close>

definition no_match_below :: "heap \<Rightarrow> FiberPredicate \<Rightarrow> ref \<Rightarrow> nat \<Rightarrow> bool" where
  "no_match_below h p node k =
     list_all (\<lambda>j. case parent_chain h (Some node) j of None \<Rightarrow> True | Some a \<Rightarrow> \<not> p a) [0..<k]"

text \<open>The first match on the chain of \<open>node\<close> is \<open>n\<close>, at depth \<open>k\<close>.\<close>

definition first_match_at :: "heap \<Rightarrow> FiberPredicate \<Rightarrow> ref \<Rightarrow> nat \<Rightarrow> ref \<Rightarrow> bool" where
  "first_match_at h p node k n =
     (parent_chain h (Some node) k = Some n \<and> p n \<and> no_match_below h p node k)"

text \<open>The chain of \<open>node\<close> ends (a \<^verbatim>\<open>null\<close> parent) at depth \<open>k\<close> with no match before.\<close>

definition root_without_match :: "heap \<Rightarrow> FiberPredicate \<Rightarrow> ref \<Rightarrow> nat \<Rightarrow> bool" where
  "root_without_match h p node k =
     (parent_chain h (Some node) k = None \<and> no_match_below h p node k)"

text \<open>
  The nodes a downward walk can reach, in pre-order (the node, then what its \<^verbatim>\<open>child\<close>
  link leads to, then what its \<^verbatim>\<open>sibling\<close> link leads to), cut where the number of
  links followed from the start exceeds \<open>maxDepth\<close>. A \<^verbatim>\<open>sibling\<close> link counts one step,
  as a \<^verbatim>\<open>child\<close> link does.
\<close>

function link_bounded_preorder :: "heap \<Rightarrow> int \<Rightarrow> ref option \<Rightarrow> int \<Rightarrow> ref list" where
  "link_bounded_preorder h maxDepth None depth = []"
| "link_bounded_preorder h maxDepth (Some c) depth =
     (if depth > maxDepth then []
      else c # link_bounded_preorder h maxDepth (child (h c)) (depth + 1)
             @ link_bounded_preorder h maxDepth (sibling (h c)) (depth + 1))"
  by pat_completeness auto
termination
  by (relation "measure (\<lambda>(h, maxDepth, current, depth). nat (maxDepth + 1 - depth))") auto

text \<open>
  A finite tree in the heap: \<open>tree_at h cur t\<close> says that the \<^verbatim>\<open>child\<close> and
  \<^verbatim>\<open>sibling\<close> links below \<open>cur\<close> unfold to the finite binary tree \<open>t\<close> of references
  (left branch: first child, right branch: next sibling). \<^const>\<open>preorder\<close> of that tree
  is the depth-first pre-order of the nodes.
\<close>

fun tree_at :: "heap \<Rightarrow> ref option \<Rightarrow> ref tree \<Rightarrow> bool" where
  "tree_at h cur Leaf = (cur = None)"
| "tree_at h cur (Node l r s) =
     (cur = Some r \<and> tree_at h (child (h r)) l \<and> tree_at h (sibling (h r)) s)"

text \<open>
  Two ways to cut the pre-order of a tree by a depth bound. In the first, depth is the
  depth in the tree of nodes: the root has depth 0, the children of a node at depth \<open>d\<close>
  have depth \<open>d + 1\<close>, and a node and its next sibling have the same depth. In the
  second, depth is the number of links followed from the root of the walk, a sibling
  link counting like a child link.
\<close>

fun tree_depth_preorder :: "ref tree \<Rightarrow> int \<Rightarrow> int \<Rightarrow> ref list" where
  "tree_depth_preorder Leaf maxDepth depth = []"
| "tree_depth_preorder (Node l r s) maxDepth depth =
     (if depth > maxDepth then []
      else r # tree_depth_preorder l maxDepth (depth + 1) @ tree_depth_preorder s maxDepth depth)"

fun link_depth_preorder :: "ref tree \<Rightarrow> int \<Rightarrow> int \<Rightarrow> ref list" where
  "link_depth_preorder Leaf maxDepth depth = []"
| "link_depth_preorder (Node l r s) maxDepth depth =
     (if depth > maxDepth then []
      else r # link_depth_preorder l maxDepth (depth + 1)
             @ link_depth_preorder s maxDepth (depth + 1))"

text \<open>The nodes the predicate is applied to when at most \<open>k\<close> matches are wanted from the
  sequence \<open>xs\<close>: the prefix of \<open>xs\<close> up to its \<open>k\<close>-th match.\<close>

fun tested_prefix :: "nat \<Rightarrow> ('a \<Rightarrow> bool) \<Rightarrow> 'a list \<Rightarrow> 'a list" where
  "tested_prefix k p [] = []"
| "tested_prefix k p (x # xs) =
     (if k = 0 then [] else x # tested_prefix (if p x then k - 1 else k) p xs)"

subsection \<open>A small fiber structure\<close>

text \<open>
  Node 0 is the root; its children are 1 and 2 (2 is the next sibling of 1); node 3 is
  the only child of 2.
\<close>

definition example_heap :: heap where
  "example_heap r =
     \<lparr>tag = int r, key = None,
      return = (if r = 1 \<or> r = 2 then Some 0 else if r = 3 then Some 2 else None),
      child = (if r = 0 then Some 1 else if r = 2 then Some 3 else None),
      sibling = (if r = 1 then Some 2 else None)\<rparr>"

definition example_tree :: "ref tree" where
  "example_tree = Node (Node Leaf 1 (Node (Node Leaf 3 Leaf) 2 Leaf)) 0 Leaf"

definition is_node_2 :: FiberPredicate where
  "is_node_2 r = (r = 2)"

definition is_node_0 :: FiberPredicate where
  "is_node_0 r = (r = 0)"

definition never :: FiberPredicate where
  "never r = False"

definition is_below_root :: FiberPredicate where
  "is_below_root r = (r \<noteq> 0)"

section \<open>Record extraction: untyped property values\<close>

text \<open>
  The parsers of \<^verbatim>\<open>core/parsers/message-parser.ts\<close> take a value of type
  \<^verbatim>\<open>unknown\<close>. A JavaScript number is \<^verbatim>\<open>NaN\<close>, an infinity or a finite value; the
  parsers only compare numbers and pass them on, so a finite value is kept as a real
  number. An object is its bag of properties, and reading a property that is not there
  gives \<^verbatim>\<open>undefined\<close>. Text is kept as a character string.
\<close>

datatype number = NaN | PlusInfinity | MinusInfinity | Finite real

datatype jsval =
    JUndefined
  | JNull
  | JBoolean bool
  | JNumber number
  | JString string
  | JBigInt int
  | JSymbol string
  | JFunction
  | JObject "(string \<times> jsval) list"

fun typeof :: "jsval \<Rightarrow> string" where
  "typeof JUndefined = ''undefined''"
| "typeof JNull = ''object''"
| "typeof (JBoolean b) = ''boolean''"
| "typeof (JNumber n) = ''number''"
| "typeof (JString s) = ''string''"
| "typeof (JBigInt i) = ''bigint''"
| "typeof (JSymbol s) = ''symbol''"
| "typeof JFunction = ''function''"
| "typeof (JObject kvs) = ''object''"

text \<open>Reading the property \<open>k\<close> of a value: \<^verbatim>\<open>props.k\<close>.\<close>

fun getProp :: "jsval \<Rightarrow> string \<Rightarrow> jsval" where
  "getProp (JObject kvs) k = (case map_of kvs k of None \<Rightarrow> JUndefined | Some v \<Rightarrow> v)"
| "getProp v k = JUndefined"

section \<open>Record extraction: domain records\<close>

text \<open>
  \<^verbatim>\<open>core/types/index.ts\<close>. The fields \<^verbatim>\<open>id\<close>, \<^verbatim>\<open>name\<close>, \<^verbatim>\<open>type\<close> and \<^verbatim>\<open>height\<close> occur
  in several records or are names of the library; they carry the name of their record
  as a suffix.
\<close>

datatype AttachmentType = Image | Video | Audio | Document | Sticker | Contact | Location

record Attachment =
  id_attachment :: string
  type_attachment :: AttachmentType
  url :: "string option"
  mimeType :: string
  fileName :: "string option"
  fileSize :: "number option"
  thumbnailUrl :: "string option"
  duration :: "number option"
  width :: "number option"
  height_attachment :: "number option"

datatype MessageStatus = Pending | Sent | Delivered | Read | Played | Error

record MessageSender =
  id_sender :: string
  name_sender :: string
  pushName :: "string option"
  isContact :: bool

record NormalizedMessage =
  id_message :: string
  timestamp :: number
  sender :: MessageSender
  body :: string
  isFromMe :: bool
  quotedMessageId :: "string option"
  attachments :: "Attachment list"
  status :: MessageStatus
  isForwarded :: bool
  isStarred :: bool

section \<open>Record extraction: field validators\<close>

definition parseString :: "jsval \<Rightarrow> string \<Rightarrow> (string, ParseError) Result" where
  "parseString v fieldName =
     (case v of
        JString s \<Rightarrow> ok s
      | _ \<Rightarrow> err \<lparr>type = INVALID_PROPS,
                   message = ''Expected string for '' @ fieldName @ '', got '' @ typeof v\<rparr>)"

definition parseNumber :: "jsval \<Rightarrow> string \<Rightarrow> (number, ParseError) Result" where
  "parseNumber v fieldName =
     (case v of
        JNumber n \<Rightarrow>
          if n \<noteq> NaN then ok n
          else err \<lparr>type = INVALID_PROPS,
                    message = ''Expected number for '' @ fieldName @ '', got '' @ typeof v\<rparr>
      | _ \<Rightarrow> err \<lparr>type = INVALID_PROPS,
                   message = ''Expected number for '' @ fieldName @ '', got '' @ typeof v\<rparr>)"

definition parseBoolean :: "jsval \<Rightarrow> bool" where
  "parseBoolean v = (v = JBoolean True \<or> v = JString ''true'' \<or> v = JNumber (Finite 1))"

definition parseOptionalString :: "jsval \<Rightarrow> string option" where
  "parseOptionalString v = (case v of JString s \<Rightarrow> Some s | _ \<Rightarrow> None)"

definition parseOptionalNumber :: "jsval \<Rightarrow> number option" where
  "parseOptionalNumber v =
     (case v of JNumber n \<Rightarrow> (if n \<noteq> NaN then Some n else None) | _ \<Rightarrow> None)"

text \<open>The lookup \<^verbatim>\<open>statusMap[ack] ?? "pending"\<close> in a table with the keys 0 to 4.\<close>

definition parseMessageStatus :: "jsval \<Rightarrow> MessageStatus" where
  "parseMessageStatus ack =
     (case ack of
        JNumber (Finite x) \<Rightarrow>
          if x = 0 then Pending
          else if x = 1 then Sent
          else if x = 2 then Delivered
          else if x = 3 then Read
          else if x = 4 then Played
          else Pending
      | _ \<Rightarrow> Pending)"

definition parseAttachmentType :: "jsval \<Rightarrow> AttachmentType option" where
  "parseAttachmentType v =
     (case v of
        JString s \<Rightarrow>
          map_of [(''image'', Image), (''video'', Video), (''audio'', Audio),
                  (''document'', Document), (''sticker'', Sticker), (''contact'', Contact),
                  (''location'', Location)] s
      | _ \<Rightarrow> None)"

section \<open>Record extraction: parsers\<close>

definition parseSender :: "jsval \<Rightarrow> (MessageSender, ParseError) Result" where
  "parseSender props =
     (if props = JNull \<or> typeof props \<noteq> ''object'' then
        err \<lparr>type = INVALID_PROPS, message = ''Sender props must be an object''\<rparr>
      else if getProp props ''id'' = JNull \<or> getProp props ''id'' = JUndefined then
        err \<lparr>type = MISSING_REQUIRED_FIELD, message = ''Sender ID is required''\<rparr>
      else
        (case parseString (getProp props ''id'') ''sender.id'' of
           err e \<Rightarrow> err e
         | ok idValue \<Rightarrow>
             ok \<lparr>id_sender = idValue,
                 name_sender =
                   (case parseOptionalString (getProp props ''name'') of
                      Some n \<Rightarrow> n
                    | None \<Rightarrow> idValue),
                 pushName = parseOptionalString (getProp props ''pushname''),
                 isContact = parseBoolean (getProp props ''isContact'')\<rparr>))"

text \<open>\<^verbatim>\<open>crypto.randomUUID()\<close> is the environment's generator of fresh identifiers; the
  identifier it would return is the parameter \<open>uuid\<close>.\<close>

definition parseAttachment :: "string \<Rightarrow> jsval \<Rightarrow> (Attachment, ParseError) Result" where
  "parseAttachment uuid props =
     (if props = JNull \<or> typeof props \<noteq> ''object'' then
        err \<lparr>type = INVALID_PROPS, message = ''Attachment props must be an object''\<rparr>
      else
        (case parseAttachmentType (getProp props ''type'') of
           None \<Rightarrow> err \<lparr>type = INVALID_PROPS, message = ''Invalid attachment type''\<rparr>
         | Some attachmentType \<Rightarrow>
             ok \<lparr>id_attachment = uuid,
                 type_attachment = attachmentType,
                 url = parseOptionalString (getProp props ''url''),
                 mimeType =
                   (case parseOptionalString (getProp props ''mimetype'') of
                      Some m \<Rightarrow> m
                    | None \<Rightarrow> ''application/octet-stream''),
                 fileName = parseOptionalString (getProp props ''filename''),
                 fileSize = parseOptionalNumber (getProp props ''size''),
                 thumbnailUrl = None,
                 duration = parseOptionalNumber (getProp props ''duration''),
                 width = parseOptionalNumber (getProp props ''width''),
                 height_attachment = parseOptionalNumber (getProp props ''height'')\<rparr>))"

definition parseMessage :: "string \<Rightarrow> jsval \<Rightarrow> (NormalizedMessage, ParseError) Result" where
  "parseMessage uuid props =
     (if props = JNull \<or> typeof props \<noteq> ''object'' then
        err \<lparr>type = INVALID_PROPS, message = ''Message props must be an object''\<rparr>
      else if getProp props ''id'' = JNull \<or> getProp props ''id'' = JUndefined then
        err \<lparr>type = MISSING_REQUIRED_FIELD, message = ''Message ID is required''\<rparr>
      else if getProp props ''t'' = JNull \<or> getProp props ''t'' = JUndefined then
        err \<lparr>type = MISSING_REQUIRED_FIELD, message = ''Message timestamp is required''\<rparr>
      else
        (case parseString (getProp props ''id'') ''id'' of
           err e \<Rightarrow> err e
         | ok idValue \<Rightarrow>
             (case parseNumber (getProp props ''t'') ''timestamp'' of
                err e \<Rightarrow> err e
              | ok timestampValue \<Rightarrow>
                  ok \<lparr>id_message = idValue,
                      timestamp = timestampValue,
                      sender =
                        \<lparr>id_sender =
                           (case parseOptionalString (getProp props ''from'') of
                              Some s \<Rightarrow> s
                            | None \<Rightarrow> ''unknown''),
                         name_sender =
                           (case parseOptionalString (getProp props ''from'') of
                              Some s \<Rightarrow> s
                            | None \<Rightarrow> ''Unknown''),
                         pushName = None,
                         isContact = False\<rparr>,
                      body =
                        (case parseOptionalString (getProp props ''body'') of
                           Some s \<Rightarrow> s
                         | None \<Rightarrow> []),
                      isFromMe = parseBoolean (getProp props ''self''),
                      quotedMessageId =
                        parseOptionalString
                          (if typeof (getProp props ''quotedMsg'') = ''object''
                              \<and> getProp props ''quotedMsg'' \<noteq> JNull
                           then getProp (getProp props ''quotedMsg'') ''id''
                           else JNull),
                      attachments =
                        (if getProp props ''mediaData'' \<noteq> JNull
                            \<and> getProp props ''mediaData'' \<noteq> JUndefined
                         then
                           (case parseAttachment uuid (getProp props ''mediaData'') of
                              ok attachment \<Rightarrow> [attachment]
                            | err _ \<Rightarrow> [])
                         else []),
                      status = parseMessageStatus (getProp props ''ack''),
                      isForwarded = parseBoolean (getProp props ''isForwarded''),
                      isStarred = parseBoolean (getProp props ''isStarred'')\<rparr>)))"

section \<open>Record extraction: notions used to state the properties\<close>

text \<open>A value is an object when it passes the guard of the parsers
  (\<^verbatim>\<open>props !== null && typeof props === "object"\<close>); a field is absent when it is
  \<^verbatim>\<open>null\<close> or \<^verbatim>\<open>undefined\<close>.\<close>

definition is_object :: "jsval \<Rightarrow> bool" where
  "is_object v = (v \<noteq> JNull \<and> typeof v = ''object'')"

definition absent :: "jsval \<Rightarrow> bool" where
  "absent v = (v = JNull \<or> v = JUndefined)"

text \<open>Three message property bags.\<close>

definition message_with_image :: jsval where
  "message_with_image =
     JObject [(''id'', JString ''m1''), (''t'', JNumber (Finite 1700000000)),
              (''mediaData'', JObject [(''type'', JString ''image'')])]"

definition message_with_bad_media :: jsval where
  "message_with_bad_media =
     JObject [(''id'', JString ''m2''), (''t'', JNumber (Finite 1700000000)),
              (''mediaData'', JObject [(''type'', JString ''gif'')])]"

definition message_without_from :: jsval where
  "message_without_from =
     JObject [(''id'', JString ''m3''), (''t'', JNumber (Finite 1700000000)),
              (''pushname'', JString ''Ann''), (''isContact'', JBoolean True)]"

section \<open>Rate limiter\<close>

text \<open>
  \<^verbatim>\<open>shell/anti-detection/rate-limiter.ts\<close>. The limiter is a closure over one mutable
  state record; every operation takes the state and returns it updated. The environment
  is made explicit: each call of \<^verbatim>\<open>Date.now()\<close> is a parameter carrying the clock
  reading it returns, and the call of \<^verbatim>\<open>Math.random()\<close> is a parameter carrying the
  number drawn. Numbers are real numbers: the rounding of floating-point arithmetic is
  not modelled.
\<close>

record RateLimiterConfig =
  maxTokens :: real
  refillRate :: real
  pauseInterval :: real
  pauseDuration_min :: real
  pauseDuration_max :: real

record RateLimiterState =
  tokens :: real
  lastRefill :: real
  lastPauseCheck :: real
  pausedUntil :: "real option"

definition createRateLimiter :: "RateLimiterConfig \<Rightarrow> real \<Rightarrow> real \<Rightarrow> RateLimiterState" where
  "createRateLimiter config now_refill now_pause =
     \<lparr>tokens = maxTokens config, lastRefill = now_refill, lastPauseCheck = now_pause,
      pausedUntil = None\<rparr>"

definition refillTokens :: "RateLimiterConfig \<Rightarrow> real \<Rightarrow> RateLimiterState \<Rightarrow> RateLimiterState" where
  "refillTokens config now s =
     (let elapsed = now - lastRefill s;
          tokensToAdd = elapsed * refillRate config
      in s\<lparr>tokens := min (maxTokens config) (tokens s + tokensToAdd), lastRefill := now\<rparr>)"

definition checkMandatoryPause ::
  "RateLimiterConfig \<Rightarrow> real \<Rightarrow> real \<Rightarrow> RateLimiterState \<Rightarrow> RateLimiterState" where
  "checkMandatoryPause config now random s =
     (if now - lastPauseCheck s \<ge> pauseInterval config then
        (let pauseDuration =
               pauseDuration_min config +
               random * (pauseDuration_max config - pauseDuration_min config)
         in s\<lparr>pausedUntil := Some (now + pauseDuration), lastPauseCheck := now\<rparr>)
      else s)"

definition isPaused :: "real \<Rightarrow> RateLimiterState \<Rightarrow> bool \<times> RateLimiterState" where
  "isPaused now s =
     (case pausedUntil s of
        None \<Rightarrow> (False, s)
      | Some until \<Rightarrow>
          if now \<ge> until then (False, s\<lparr>pausedUntil := None\<rparr>) else (True, s))"

text \<open>\<^verbatim>\<open>tryConsume\<close> reads the clock in \<^verbatim>\<open>checkMandatoryPause\<close>, in \<^verbatim>\<open>isPaused\<close> and in
  \<^verbatim>\<open>refillTokens\<close>: the readings \<open>now_check\<close>, \<open>now_paused\<close> and \<open>now_refill\<close>.\<close>

definition tryConsume ::
  "RateLimiterConfig \<Rightarrow> real \<Rightarrow> real \<Rightarrow> real \<Rightarrow> real \<Rightarrow> real \<Rightarrow> RateLimiterState \<Rightarrow>
   bool \<times> RateLimiterState" where
  "tryConsume config now_check random now_paused now_refill count s =
     (let s1 = checkMandatoryPause config now_check random s;
          (paused, s2) = isPaused now_paused s1
      in if paused then (False, s2)
         else
           (let s3 = refillTokens config now_refill s2
            in if tokens s3 < count then (False, s3)
               else (True, s3\<lparr>tokens := tokens s3 - count\<rparr>)))"

definition getTokens :: "RateLimiterConfig \<Rightarrow> real \<Rightarrow> RateLimiterState \<Rightarrow> int \<times> RateLimiterState" where
  "getTokens config now s =
     (let s1 = refillTokens config now s in (\<lfloor>tokens s1\<rfloor>, s1))"

definition getResumeTime :: "RateLimiterState \<Rightarrow> real option" where
  "getResumeTime s = pausedUntil s"

definition reset :: "RateLimiterConfig \<Rightarrow> real \<Rightarrow> real \<Rightarrow> RateLimiterState" where
  "reset config now_refill now_pause =
     \<lparr>tokens = maxTokens config, lastRefill = now_refill, lastPauseCheck = now_pause,
      pausedUntil = None\<rparr>"

text \<open>The limiter of the spec's example, with some cooldown settings.\<close>

definition example_config :: RateLimiterConfig where
  "example_config =
     \<lparr>maxTokens = 10, refillRate = 1 / 100, pauseInterval = 60000,
      pauseDuration_min = 2000, pauseDuration_max = 5000\<rparr>"

text \<open>The duration \<^verbatim>\<open>checkMandatoryPause\<close> computes from the number drawn.\<close>

definition drawnPauseDuration :: "RateLimiterConfig \<Rightarrow> real \<Rightarrow> real" where
  "drawnPauseDuration config random =
     pauseDuration_min config + random * (pauseDuration_max config - pauseDuration_min config)"

text \<open>A state inside a pause window that lasts until 70000.\<close>

definition paused_state :: RateLimiterState where
  "paused_state = \<lparr>tokens = 10, lastRefill = 0, lastPauseCheck = 0, pausedUntil = Some 70000\<rparr>"

section \<open>Drift detector: the fingerprint hash\<close>

text \<open>
  \<^verbatim>\<open>shell/anti-detection/version-guard.ts\<close>, \<^verbatim>\<open>generateDomHash\<close>. A JavaScript string
  is a sequence of 16-bit code units. \<^verbatim>\<open>Array.from(str)\<close> splits a string into its code
  points, so that a high surrogate followed by a low surrogate forms one element, and
  \<^verbatim>\<open>charCodeAt(0)\<close> is the first code unit of an element (\<^verbatim>\<open>NaN\<close>, here \<open>None\<close>, on the
  empty string).
\<close>

type_synonym jsstring = "16 word list"

fun join :: "jsstring \<Rightarrow> jsstring list \<Rightarrow> jsstring" where
  "join sep [] = []"
| "join sep [p] = p"
| "join sep (p # q # ps) = p @ sep @ join sep (q # ps)"

definition is_high_surrogate :: "16 word \<Rightarrow> bool" where
  "is_high_surrogate u = (0xD800 \<le> u \<and> u \<le> 0xDBFF)"

definition is_low_surrogate :: "16 word \<Rightarrow> bool" where
  "is_low_surrogate u = (0xDC00 \<le> u \<and> u \<le> 0xDFFF)"

fun Array_from :: "jsstring \<Rightarrow> jsstring list" where
  "Array_from [] = []"
| "Array_from [a] = [[a]]"
| "Array_from (a # b # rest) =
     (if is_high_surrogate a \<and> is_low_surrogate b then [a, b] # Array_from rest
      else [a] # Array_from (b # rest))"

fun charCodeAt0 :: "jsstring \<Rightarrow> int option" where
  "charCodeAt0 [] = None"
| "charCodeAt0 (u # us) = Some (uint u)"

text \<open>
  The bitwise operators work on 32-bit signed integers: \<^verbatim>\<open>ToInt32\<close> wraps an integer
  into the range from \<open>- 2 ^ 31\<close> to \<open>2 ^ 31 - 1\<close>; \<^verbatim>\<open>x << n\<close> converts \<open>x\<close>, shifts by
  \<open>n mod 32\<close> bits and wraps the result; \<^verbatim>\<open>x | 0\<close> converts \<open>x\<close>. The additions and
  subtractions between them are on numbers far below \<open>2 ^ 53\<close> and so exact.
\<close>

definition ToInt32 :: "int \<Rightarrow> int" where
  "ToInt32 x = (x + 2 ^ 31) mod 2 ^ 32 - 2 ^ 31"

definition shiftLeft :: "int \<Rightarrow> nat \<Rightarrow> int" where
  "shiftLeft x n = ToInt32 (ToInt32 x * 2 ^ (n mod 32))"

definition hash_step :: "int \<Rightarrow> jsstring \<Rightarrow> int" where
  "hash_step acc char =
     (case charCodeAt0 char of
        None \<Rightarrow> 0
      | Some code \<Rightarrow> ToInt32 (shiftLeft acc 5 - acc + code))"

text \<open>The second half of \<^verbatim>\<open>generateDomHash\<close>, from the array \<^verbatim>\<open>parts\<close> on.\<close>

definition generateDomHash_of_parts :: "jsstring list \<Rightarrow> string" where
  "generateDomHash_of_parts parts =
     (let str = join [0x7C] parts;
          hash = foldl hash_step 0 (Array_from str)
      in toString 16 hash)"

text \<open>
  The first half builds \<^verbatim>\<open>parts\<close> from the host document, one part per selector. The
  document is the function \<open>querySelector\<close>; an element is its tag name, its class list
  and its attributes (name and value). \<^verbatim>\<open>toLowerCase\<close> is a parameter. The default
  \<^verbatim>\<open>sort()\<close> orders strings by their code units, which is the lexicographic order of
  the lists.
\<close>

record Element =
  tagName :: jsstring
  classList :: "jsstring list"
  attributes :: "(jsstring \<times> jsstring) list"

definition js :: "string \<Rightarrow> jsstring" where
  "js s = map (\<lambda>c. of_nat (of_char c)) s"

definition startsWith :: "jsstring \<Rightarrow> jsstring \<Rightarrow> bool" where
  "startsWith s searchString = prefix searchString s"

definition probe_part :: "(jsstring \<Rightarrow> jsstring) \<Rightarrow> Element option \<Rightarrow> jsstring" where
  "probe_part toLowerCase element =
     (case element of
        Some e \<Rightarrow>
          (let tag = toLowerCase (tagName e);
               classNames = join (js '','') (sort (classList e));
               dataAttrs =
                 join (js '';'')
                   (sort (map (\<lambda>(name, val). name @ js ''='' @ val)
                            (filter (\<lambda>(name, val). startsWith name (js ''data-''))
                               (attributes e))))
           in tag @ js '':'' @ classNames @ js '':'' @ dataAttrs)
      | None \<Rightarrow> js ''NOT_FOUND'')"

definition generateDomHash ::
  "(jsstring \<Rightarrow> jsstring) \<Rightarrow> ('sel \<Rightarrow> Element option) \<Rightarrow> 'sel list \<Rightarrow> string" where
  "generateDomHash toLowerCase querySelector selectors =
     generateDomHash_of_parts (map (\<lambda>selector. probe_part toLowerCase (querySelector selector)) selectors)"

text \<open>
  Modelled from the spec's words, for comparison with the function above: the
  segments are joined with the delimiter and reduced by the polynomial rolling hash
  \<open>acc = acc * 31 + charCode\<close>, wrapped to 32 bits, to a 32-bit signed integer, which is
  rendered as a hexadecimal string. The hash runs over the joined string itself: every
  code unit of the string is a character and its value is the character's code. The
  wrap is the value, read as two's complement, of the number stored in a 32-bit word.
\<close>

definition spec_wrap32 :: "int \<Rightarrow> int" where
  "spec_wrap32 x = sint (word_of_int x :: 32 word)"

definition spec_hash_step :: "int \<Rightarrow> 16 word \<Rightarrow> int" where
  "spec_hash_step acc c = spec_wrap32 (acc * 31 + uint c)"

definition spec_fingerprint :: "jsstring list \<Rightarrow> string" where
  "spec_fingerprint segments =
     toString 16 (foldl spec_hash_step 0 (join [0x7C] segments))"

subsection \<open>Notions used to state the properties of the fingerprint\<close>

text \<open>A string has a surrogate pair when a high surrogate is directly followed by a
  low surrogate.\<close>

fun has_surrogate_pair :: "jsstring \<Rightarrow> bool" where
  "has_surrogate_pair [] = False"
| "has_surrogate_pair [a] = False"
| "has_surrogate_pair (a # b # rest) =
     ((is_high_surrogate a \<and> is_low_surrogate b) \<or> has_surrogate_pair (b # rest))"

text \<open>The code units of a string that stand first in a code point: the string without
  the low surrogate of each surrogate pair, the pairs taken from left to right.\<close>

fun leading_units :: "jsstring \<Rightarrow> jsstring" where
  "leading_units [] = []"
| "leading_units [a] = [a]"
| "leading_units (a # b # rest) =
     (if is_high_surrogate a \<and> is_low_surrogate b then a # leading_units rest
      else a # leading_units (b # rest))"

section \<open>Properties of the traversal engine\<close>

subsection \<open>Unfolding the collecting walk\<close>

lemma traverse_collect_None: "traverse_collect h p N None rs = Some rs"
  by (simp add: traverse_collect.simps)

lemma traverse_collect_Some:
  "traverse_collect h p N (Some c) rs =
     (if int (length rs) \<ge> N then Some rs
      else Option.bind
             (traverse_collect h p N (child (h c)) (if p c then rs @ [c] else rs))
             (\<lambda>rs'. traverse_collect h p N (sibling (h c)) rs'))"
  by (simp add: traverse_collect.simps [of h p N "Some c" rs])

lemma traverse_collect_log_None: "traverse_collect_log h p N None st = Some st"
  by (simp add: traverse_collect_log.simps)

lemma traverse_collect_log_Some:
  "traverse_collect_log h p N (Some c) (rs, lg) =
     (if int (length rs) \<ge> N then Some (rs, lg)
      else Option.bind
             (traverse_collect_log h p N (child (h c))
                (if p c then rs @ [c] else rs, lg @ [c]))
             (\<lambda>st'. traverse_collect_log h p N (sibling (h c)) st'))"
  by (simp add: traverse_collect_log.simps [of h p N "Some c" "(rs, lg)"])

subsection \<open>The upward walk finds the first match within the depth bound\<close>

lemma parent_chain_None [simp]: "parent_chain h None k = None"
  by (cases k) auto

lemma no_match_below_iff:
  "no_match_below h p node k \<longleftrightarrow>
     (\<forall>j<k. \<forall>a. parent_chain h (Some node) j = Some a \<longrightarrow> \<not> p a)"
  by (auto simp: no_match_below_def list_all_iff split: option.splits)

lemma traverse_up_finds:
  "parent_chain h cur k = Some n \<Longrightarrow> p n \<Longrightarrow>
   (\<forall>j<k. \<forall>a. parent_chain h cur j = Some a \<longrightarrow> \<not> p a) \<Longrightarrow> d + int k \<le> m \<Longrightarrow>
   traverse_up h p m cur d = ok n"
proof (induction k arbitrary: cur d)
  case 0
  then show ?case by simp
next
  case (Suc k)
  from Suc.prems(1) obtain c where c: "cur = Some c"
    by (cases cur) auto
  have npc: "\<not> p c"
    using Suc.prems(3) c by (auto dest: spec [of _ 0])
  have later: "\<forall>j<k. \<forall>a. parent_chain h (return (h c)) j = Some a \<longrightarrow> \<not> p a"
  proof (intro allI impI)
    fix j a assume "j < k" "parent_chain h (return (h c)) j = Some a"
    then have "Suc j < Suc k" "parent_chain h cur (Suc j) = Some a" using c by auto
    then show "\<not> p a" using Suc.prems(3) by blast
  qed
  have "traverse_up h p m (return (h c)) (d + 1) = ok n"
    using Suc.IH [of "return (h c)" "d + 1"] Suc.prems c later by simp
  moreover have "\<not> d > m" using Suc.prems(4) by simp
  ultimately show ?case
    using c npc by simp
qed

text \<open>Past the depth bound, or at the end of the chain, the walk fails; which of the two
  messages it gives depends on whether the chain is longer than the bound.\<close>

lemma traverse_up_misses:
  "(\<forall>j. d + int j \<le> m \<longrightarrow> (\<forall>a. parent_chain h cur j = Some a \<longrightarrow> \<not> p a)) \<Longrightarrow>
   traverse_up h p m cur d =
     (if parent_chain h cur (nat (m + 1 - d)) = None
      then err \<lparr>type = TRAVERSAL_FAILED,
                message = ''Reached root of fiber tree without finding match''\<rparr>
      else err \<lparr>type = TRAVERSAL_FAILED,
                message = ''Max depth '' @ toString 10 m @
                          '' exceeded during upward traversal''\<rparr>)"
proof (induction h p m cur d rule: traverse_up.induct)
  case (1 h p m d)
  show ?case by simp
next
  case (2 h p m c d)
  show ?case
  proof (cases "d > m")
    case True
    then show ?thesis by simp
  next
    case dm: False
    have npc: "\<not> p c"
      using "2.prems" dm by (auto dest: spec [of _ 0])
    have later: "\<forall>j. d + 1 + int j \<le> m \<longrightarrow>
        (\<forall>a. parent_chain h (return (h c)) j = Some a \<longrightarrow> \<not> p a)"
    proof (intro allI impI)
      fix j a assume "d + 1 + int j \<le> m" "parent_chain h (return (h c)) j = Some a"
      then have "d + int (Suc j) \<le> m" "parent_chain h (Some c) (Suc j) = Some a"
        by auto
      then show "\<not> p a" using "2.prems" by blast
    qed
    have n: "nat (m + 1 - d) = Suc (nat (m + 1 - (d + 1)))"
      using dm by simp
    show ?thesis
      using "2.IH" [OF dm npc later] dm npc
      by (simp add: n)
  qed
qed

lemma traverse_up_err:
  "traverse_up h p m cur d = err e \<Longrightarrow> type e = TRAVERSAL_FAILED"
  by (induction h p m cur d rule: traverse_up.induct) (auto split: if_splits)

lemma parent_chain_stays_None:
  "parent_chain h cur k = None \<Longrightarrow> k \<le> j \<Longrightarrow> parent_chain h cur j = None"
proof (induction k arbitrary: cur j)
  case 0
  then show ?case by simp
next
  case (Suc k)
  then obtain i where j: "j = Suc i" "k \<le> i" by (cases j) auto
  show ?case
  proof (cases cur)
    case None
    then show ?thesis by simp
  next
    case (Some c)
    then show ?thesis using Suc.IH [of "return (h c)" i] Suc.prems(1) j by simp
  qed
qed

lemma traverseUpwards_zero:
  "traverseUpwards h node p 0 =
     (if p node then ok node
      else if return (h node) = None
      then err \<lparr>type = TRAVERSAL_FAILED,
                message = ''Reached root of fiber tree without finding match''\<rparr>
      else err \<lparr>type = TRAVERSAL_FAILED,
                message = ''Max depth '' @ toString 10 0 @
                          '' exceeded during upward traversal''\<rparr>)"
  by (cases "return (h node)") (simp_all add: traverseUpwards_def)

text \<open>
  Claim C1. \<^verbatim>\<open>traverseUpwards\<close> walks the parent-link chain with the starting node at
  depth 0 and returns the first node that satisfies the predicate. The depth check comes
  before the predicate check: when the first match \<open>n\<close> is at depth \<open>k\<close>, the call
  succeeds with \<open>n\<close> if \<open>k \<le> maxDepth\<close> (so also at depth \<open>maxDepth\<close> exactly) and fails
  with \<^verbatim>\<open>TRAVERSAL_FAILED\<close> ("max depth exceeded") if \<open>k > maxDepth\<close> (so also at depth
  \<open>maxDepth + 1\<close>). When the chain reaches a null parent without a match the call fails
  with \<^verbatim>\<open>TRAVERSAL_FAILED\<close>. With \<open>maxDepth = 0\<close> the call succeeds exactly when the
  predicate holds for the starting node itself, and then returns that node. Every
  failure of the call carries the tag \<^verbatim>\<open>TRAVERSAL_FAILED\<close>.
\<close>

theorem traverseUpwards_first_match_within_maxDepth:
  "(first_match_at h p node k n \<longrightarrow>
      traverseUpwards h node p maxDepth =
        (if int k \<le> maxDepth then ok n
         else err \<lparr>type = TRAVERSAL_FAILED,
                   message = ''Max depth '' @ toString 10 maxDepth @
                             '' exceeded during upward traversal''\<rparr>))
   \<and> (root_without_match h p node k \<longrightarrow>
        (\<exists>msg. traverseUpwards h node p maxDepth =
                 err \<lparr>type = TRAVERSAL_FAILED, message = msg\<rparr>))
   \<and> (traverseUpwards h node p 0 = ok n \<longleftrightarrow> n = node \<and> p node)
   \<and> (\<not> p node \<longrightarrow>
        (\<exists>msg. traverseUpwards h node p 0 = err \<lparr>type = TRAVERSAL_FAILED, message = msg\<rparr>))
   \<and> (\<forall>e. traverseUpwards h node p maxDepth = err e \<longrightarrow> type e = TRAVERSAL_FAILED)"
proof (intro conjI impI allI)
  assume fm: "first_match_at h p node k n"
  then have chain: "parent_chain h (Some node) k = Some n" and pn: "p n"
    and before: "\<forall>j<k. \<forall>a. parent_chain h (Some node) j = Some a \<longrightarrow> \<not> p a"
    by (simp_all add: first_match_at_def no_match_below_iff)
  show "traverseUpwards h node p maxDepth =
        (if int k \<le> maxDepth then ok n
         else err \<lparr>type = TRAVERSAL_FAILED,
                   message = ''Max depth '' @ toString 10 maxDepth @
                             '' exceeded during upward traversal''\<rparr>)"
  proof (cases "int k \<le> maxDepth")
    case True
    then show ?thesis
      using traverse_up_finds [OF chain pn before, of 0 maxDepth]
      by (simp add: traverseUpwards_def)
  next
    case False
    have none: "\<forall>j. 0 + int j \<le> maxDepth \<longrightarrow>
        (\<forall>a. parent_chain h (Some node) j = Some a \<longrightarrow> \<not> p a)"
    proof (intro allI impI)
      fix j a assume "0 + int j \<le> maxDepth" and a: "parent_chain h (Some node) j = Some a"
      then have "j < k" using False by simp
      then show "\<not> p a" using before a by blast
    qed
    have "nat (maxDepth + 1 - 0) \<le> k" using False by simp
    then have "parent_chain h (Some node) (nat (maxDepth + 1 - 0)) \<noteq> None"
      using parent_chain_stays_None [of h "Some node" "nat (maxDepth + 1 - 0)" k] chain
      by auto
    then show ?thesis
      using traverse_up_misses [OF none] False by (simp add: traverseUpwards_def)
  qed
next
  assume "root_without_match h p node k"
  then have chain: "parent_chain h (Some node) k = None"
    and before: "\<forall>j<k. \<forall>a. parent_chain h (Some node) j = Some a \<longrightarrow> \<not> p a"
    by (simp_all add: root_without_match_def no_match_below_iff)
  have none: "\<forall>j. 0 + int j \<le> maxDepth \<longrightarrow>
      (\<forall>a. parent_chain h (Some node) j = Some a \<longrightarrow> \<not> p a)"
  proof (intro allI impI)
    fix j a assume a: "parent_chain h (Some node) j = Some a"
    then have "j < k"
      using parent_chain_stays_None [OF chain, of j] by (cases "j < k") auto
    then show "\<not> p a" using before a by blast
  qed
  show "\<exists>msg. traverseUpwards h node p maxDepth =
      err \<lparr>type = TRAVERSAL_FAILED, message = msg\<rparr>"
    using traverse_up_misses [OF none] by (auto simp: traverseUpwards_def)
next
  show "traverseUpwards h node p 0 = ok n \<longleftrightarrow> n = node \<and> p node"
    by (auto simp: traverseUpwards_zero)
next
  assume "\<not> p node"
  then show "\<exists>msg. traverseUpwards h node p 0 = err \<lparr>type = TRAVERSAL_FAILED, message = msg\<rparr>"
    by (simp add: traverseUpwards_zero)
next
  fix e assume "traverseUpwards h node p maxDepth = err e"
  then show "type e = TRAVERSAL_FAILED"
    unfolding traverseUpwards_def by (rule traverse_up_err)
qed

lemma toString_10_small:
  "toString 10 0 = ''0''" "toString 10 1 = ''1''" "toString 10 2 = ''2''"
  by (simp_all add: toString_def digit_char_def)

theorem traverseUpwards_first_match_witness:
  "traverseUpwards example_heap 3 is_node_0 2 = ok 0
   \<and> traverseUpwards example_heap 3 is_node_0 1 =
       err \<lparr>type = TRAVERSAL_FAILED,
            message = ''Max depth 1 exceeded during upward traversal''\<rparr>
   \<and> (\<exists>msg. traverseUpwards example_heap 3 never 5 =
         err \<lparr>type = TRAVERSAL_FAILED, message = msg\<rparr>)
   \<and> (\<exists>msg. traverseUpwards example_heap 3 is_node_0 0 =
         err \<lparr>type = TRAVERSAL_FAILED, message = msg\<rparr>)"
proof -
  have chain: "parent_chain example_heap (Some 3) 2 = Some 0"
    by (simp add: numeral_2_eq_2 example_heap_def)
  have fm: "first_match_at example_heap is_node_0 3 2 0"
    by (simp add: first_match_at_def no_match_below_def numeral_2_eq_2 example_heap_def
        is_node_0_def upt_rec)
  have rw: "root_without_match example_heap never 3 3"
    by (simp add: root_without_match_def no_match_below_def numeral_3_eq_3 example_heap_def
        never_def upt_rec)
  have n3: "\<not> is_node_0 3" by (simp add: is_node_0_def)
  note main = traverseUpwards_first_match_within_maxDepth
  from main [of example_heap is_node_0 3 2 0 2] fm
  have a: "traverseUpwards example_heap 3 is_node_0 2 = ok 0" by simp
  from main [of example_heap is_node_0 3 2 0 1] fm
  have b: "traverseUpwards example_heap 3 is_node_0 1 =
       err \<lparr>type = TRAVERSAL_FAILED,
            message = ''Max depth 1 exceeded during upward traversal''\<rparr>"
    by (simp add: toString_10_small)
  from main [of example_heap never 3 3 0 5] rw
  have c: "\<exists>msg. traverseUpwards example_heap 3 never 5 =
         err \<lparr>type = TRAVERSAL_FAILED, message = msg\<rparr>" by blast
  from main [of example_heap is_node_0 3 0 0 0] n3
  have d: "\<exists>msg. traverseUpwards example_heap 3 is_node_0 0 =
         err \<lparr>type = TRAVERSAL_FAILED, message = msg\<rparr>" by blast
  from a b c d show ?thesis by blast
qed

subsection \<open>The downward walk finds the first match of the bounded pre-order\<close>

lemma find_append:
  "find p (xs @ ys) = (case find p xs of Some x \<Rightarrow> Some x | None \<Rightarrow> find p ys)"
  by (induction xs) auto

lemma traverse_down_first_match:
  "(case find p (link_bounded_preorder h m cur d) of
      Some n \<Rightarrow> traverse_down h p m cur d = ok n
    | None \<Rightarrow>
        (\<exists>msg. traverse_down h p m cur d = err \<lparr>type = TRAVERSAL_FAILED, message = msg\<rparr>))"
proof (induction h p m cur d rule: traverse_down.induct)
  case (1 h p m d)
  show ?case by simp
next
  case (2 h p m c d)
  show ?case
  proof (cases "d > m")
    case True
    then show ?thesis by simp
  next
    case dm: False
    show ?thesis
    proof (cases "p c")
      case True
      then show ?thesis using dm by simp
    next
      case npc: False
      note ihc = "2.IH"(1) [OF dm npc]
      show ?thesis
      proof (cases "find p (link_bounded_preorder h m (child (h c)) (d + 1))")
        case (Some n)
        then have "traverse_down h p m (child (h c)) (d + 1) = ok n"
          using ihc by simp
        then show ?thesis
          using dm npc Some by (simp add: find_append)
      next
        case None
        then obtain msg where e: "traverse_down h p m (child (h c)) (d + 1) =
            err \<lparr>type = TRAVERSAL_FAILED, message = msg\<rparr>"
          using ihc by auto
        note ihs = "2.IH"(2) [OF dm npc e]
        have "traverse_down h p m (Some c) d = traverse_down h p m (sibling (h c)) (d + 1)"
          using dm npc e by simp
        moreover have "find p (link_bounded_preorder h m (Some c) d) =
            find p (link_bounded_preorder h m (sibling (h c)) (d + 1))"
          using dm npc None by (simp add: find_append)
        ultimately show ?thesis
          using ihs by (simp split: option.splits)
      qed
    qed
  qed
qed

lemma link_bounded_preorder_tree:
  "tree_at h cur t \<Longrightarrow> link_bounded_preorder h m cur d = link_depth_preorder t m d"
  by (induction t arbitrary: cur d) auto

lemma example_tree_at: "tree_at example_heap (Some 0) example_tree"
  by (simp add: example_tree_def example_heap_def)

text \<open>
  Claim C2, as stated, read with the depth of a node in the tree (a node and its next
  sibling at the same depth): in the example structure node 2 is a child of the root, so
  it has depth 1, it satisfies the predicate and it is the first match in pre-order
  among the nodes of depth at most 1; yet the call with \<open>maxDepth = 1\<close> fails. The walk
  reaches node 2 through the \<^verbatim>\<open>sibling\<close> link of node 1 with its depth counter at 2.
\<close>

theorem traverseDownwards_tree_depth_counterexample:
  "tree_at example_heap (Some 0) example_tree
   \<and> find is_node_2 (tree_depth_preorder example_tree 1 0) = Some 2
   \<and> traverseDownwards example_heap 0 is_node_2 1 =
       err \<lparr>type = TRAVERSAL_FAILED, message = ''No matching node found in subtree''\<rparr>"
  by (simp add: example_tree_def example_heap_def is_node_2_def traverseDownwards_def)

text \<open>
  Claim C2, amended. \<^verbatim>\<open>traverseDownwards\<close> is a depth-first pre-order search: it tests
  the current node, then follows the \<^verbatim>\<open>child\<close> link before the \<^verbatim>\<open>sibling\<close> link. It
  returns the first match in this order among the nodes reached from the starting node
  by at most \<open>maxDepth\<close> links, where a \<^verbatim>\<open>sibling\<close> link counts one step exactly as a
  \<^verbatim>\<open>child\<close> link does, and fails with \<^verbatim>\<open>TRAVERSAL_FAILED\<close> when none of those nodes
  matches. On a finite tree these nodes are the pre-order of the tree cut by that
  link count.
\<close>

theorem traverseDownwards_first_match_link_bounded:
  "(\<forall>n. find p (link_bounded_preorder h maxDepth (Some node) 0) = Some n \<longrightarrow>
        traverseDownwards h node p maxDepth = ok n)
   \<and> (find p (link_bounded_preorder h maxDepth (Some node) 0) = None \<longrightarrow>
        (\<exists>msg. traverseDownwards h node p maxDepth =
                 err \<lparr>type = TRAVERSAL_FAILED, message = msg\<rparr>))
   \<and> (\<forall>t. tree_at h (Some node) t \<longrightarrow>
        link_bounded_preorder h maxDepth (Some node) 0 = link_depth_preorder t maxDepth 0)"
proof (intro conjI allI impI)
  fix n assume "find p (link_bounded_preorder h maxDepth (Some node) 0) = Some n"
  then show "traverseDownwards h node p maxDepth = ok n"
    using traverse_down_first_match [where p = p and h = h and m = maxDepth and cur = "Some node" and d = 0]
    by (simp add: traverseDownwards_def)
next
  assume "find p (link_bounded_preorder h maxDepth (Some node) 0) = None"
  then show "\<exists>msg. traverseDownwards h node p maxDepth =
      err \<lparr>type = TRAVERSAL_FAILED, message = msg\<rparr>"
    using traverse_down_first_match [where p = p and h = h and m = maxDepth and cur = "Some node" and d = 0]
    by (simp add: traverseDownwards_def)
next
  fix t assume "tree_at h (Some node) t"
  then show "link_bounded_preorder h maxDepth (Some node) 0 = link_depth_preorder t maxDepth 0"
    by (rule link_bounded_preorder_tree)
qed

theorem traverseDownwards_first_match_witness:
  "traverseDownwards example_heap 0 is_node_2 2 = ok 2
   \<and> (\<exists>msg. traverseDownwards example_heap 0 never 2 =
         err \<lparr>type = TRAVERSAL_FAILED, message = msg\<rparr>)
   \<and> link_bounded_preorder example_heap 2 (Some 0) 0 = [0, 1, 2]"
proof -
  note main = traverseDownwards_first_match_link_bounded
  have t: "tree_at example_heap (Some 0) example_tree"
    by (rule example_tree_at)
  have l: "link_depth_preorder example_tree 2 0 = [0, 1, 2]"
    by (simp add: example_tree_def)
  from main [where p = is_node_2 and h = example_heap and maxDepth = 2 and node = 0] t l
  have pre: "link_bounded_preorder example_heap 2 (Some 0) 0 = [0, 1, 2]"
    by metis
  have f2: "find is_node_2 (link_bounded_preorder example_heap 2 (Some 0) 0) = Some 2"
    unfolding pre by (simp add: is_node_2_def)
  have fn: "find never (link_bounded_preorder example_heap 2 (Some 0) 0) = None"
    unfolding pre by (simp add: never_def)
  from main [where p = is_node_2 and h = example_heap and maxDepth = 2 and node = 0] f2
  have a: "traverseDownwards example_heap 0 is_node_2 2 = ok 2" by blast
  from main [where p = never and h = example_heap and maxDepth = 2 and node = 0] fn
  have b: "\<exists>msg. traverseDownwards example_heap 0 never 2 =
         err \<lparr>type = TRAVERSAL_FAILED, message = msg\<rparr>" by blast
  from a b pre show ?thesis by blast
qed

subsection \<open>collectNodes on a finite tree\<close>

lemma tested_prefix_0 [simp]: "tested_prefix 0 p xs = []"
  by (cases xs) auto

lemma tested_prefix_append:
  "tested_prefix k p (xs @ ys) =
     tested_prefix k p xs @ tested_prefix (k - length (filter p xs)) p ys"
  by (induction xs arbitrary: k) auto

lemma filter_tested_prefix: "filter p (tested_prefix k p xs) = take k (filter p xs)"
proof (induction xs arbitrary: k)
  case Nil
  then show ?case by simp
next
  case (Cons x xs)
  then show ?case by (cases k) auto
qed

lemma tested_prefix_is_prefix: "prefix (tested_prefix k p xs) xs"
  by (induction xs arbitrary: k) auto

lemma tested_prefix_all:
  "length (filter p xs) < k \<Longrightarrow> tested_prefix k p xs = xs"
  by (induction xs arbitrary: k) auto

lemma tested_prefix_last:
  "k \<le> length (filter p xs) \<Longrightarrow> 0 < k \<Longrightarrow>
   tested_prefix k p xs \<noteq> [] \<and> p (last (tested_prefix k p xs))"
proof (induction xs arbitrary: k)
  case Nil
  then show ?case by simp
next
  case (Cons x xs)
  show ?case
  proof (cases "p x \<and> k = 1")
    case True
    then show ?thesis by simp
  next
    case False
    then have "(if p x then k - 1 else k) \<le> length (filter p xs)"
      "0 < (if p x then k - 1 else k)"
      using Cons.prems by (auto split: if_splits)
    from Cons.IH [OF this] show ?thesis using Cons.prems by simp
  qed
qed

lemma traverse_collect_tree:
  "tree_at h cur t \<Longrightarrow>
   traverse_collect h p N cur rs =
     Some (rs @ take (nat (N - int (length rs))) (filter p (preorder t)))"
proof (induction t arbitrary: cur rs)
  case Leaf
  then show ?case by (simp add: traverse_collect_None)
next
  case (Node l r s)
  from Node.prems have cur: "cur = Some r" and tl: "tree_at h (child (h r)) l"
    and ts: "tree_at h (sibling (h r)) s" by simp_all
  show ?case
  proof (cases "int (length rs) \<ge> N")
    case True
    then show ?thesis using cur by (simp add: traverse_collect_Some)
  next
    case False
    define rs1 where "rs1 = (if p r then rs @ [r] else rs)"
    define rs2 where "rs2 = rs1 @ take (nat (N - int (length rs1))) (filter p (preorder l))"
    have c1: "traverse_collect h p N (child (h r)) rs1 = Some rs2"
      unfolding rs2_def by (rule Node.IH(1) [OF tl])
    have c2: "traverse_collect h p N (sibling (h r)) rs2 =
        Some (rs2 @ take (nat (N - int (length rs2))) (filter p (preorder s)))"
      by (rule Node.IH(2) [OF ts])
    have "traverse_collect h p N cur rs =
        Some (rs2 @ take (nat (N - int (length rs2))) (filter p (preorder s)))"
      using cur False c1 c2 by (simp add: traverse_collect_Some rs1_def)
    moreover have "rs2 @ take (nat (N - int (length rs2))) (filter p (preorder s)) =
        rs @ take (nat (N - int (length rs))) (filter p (preorder (Node l r s)))"
    proof -
      obtain k where k: "nat (N - int (length rs)) = Suc k"
        using False by (cases "nat (N - int (length rs))") auto
      define k1 where "k1 = nat (N - int (length rs1))"
      have k1: "k1 = (if p r then k else Suc k)"
        using k by (auto simp: rs1_def k1_def)
      have "length rs2 = length rs1 + min k1 (length (filter p (preorder l)))"
        by (simp add: rs2_def k1_def)
      then have len2: "nat (N - int (length rs2)) = k1 - length (filter p (preorder l))"
        unfolding k1_def by (simp add: min_def split: if_splits)
      have "rs2 @ take (k1 - length (filter p (preorder l))) (filter p (preorder s)) =
          rs @ take (Suc k) (filter p (r # preorder l @ preorder s))"
      proof -
        have "rs2 = rs1 @ take k1 (filter p (preorder l))"
          by (simp add: rs2_def k1_def)
        then show ?thesis using k1 by (simp add: rs1_def)
      qed
      then show ?thesis using len2 k by simp
    qed
    ultimately show ?thesis by simp
  qed
qed

lemma traverse_collect_log_tree:
  "tree_at h cur t \<Longrightarrow>
   traverse_collect_log h p N cur (rs, lg) =
     Some (rs @ take (nat (N - int (length rs))) (filter p (preorder t)),
           lg @ tested_prefix (nat (N - int (length rs))) p (preorder t))"
proof (induction t arbitrary: cur rs lg)
  case Leaf
  then show ?case by (simp add: traverse_collect_log_None)
next
  case (Node l r s)
  from Node.prems have cur: "cur = Some r" and tl: "tree_at h (child (h r)) l"
    and ts: "tree_at h (sibling (h r)) s" by simp_all
  show ?case
  proof (cases "int (length rs) \<ge> N")
    case True
    then show ?thesis using cur by (simp add: traverse_collect_log_Some)
  next
    case False
    define rs1 where "rs1 = (if p r then rs @ [r] else rs)"
    define k1 where "k1 = nat (N - int (length rs1))"
    define rs2 where "rs2 = rs1 @ take k1 (filter p (preorder l))"
    define lg2 where "lg2 = (lg @ [r]) @ tested_prefix k1 p (preorder l)"
    have c1: "traverse_collect_log h p N (child (h r)) (rs1, lg @ [r]) = Some (rs2, lg2)"
      unfolding rs2_def lg2_def k1_def by (rule Node.IH(1) [OF tl])
    have c2: "traverse_collect_log h p N (sibling (h r)) (rs2, lg2) =
        Some (rs2 @ take (nat (N - int (length rs2))) (filter p (preorder s)),
              lg2 @ tested_prefix (nat (N - int (length rs2))) p (preorder s))"
      by (rule Node.IH(2) [OF ts])
    have step: "traverse_collect_log h p N cur (rs, lg) =
        Some (rs2 @ take (nat (N - int (length rs2))) (filter p (preorder s)),
              lg2 @ tested_prefix (nat (N - int (length rs2))) p (preorder s))"
      using cur False c1 c2 by (simp add: traverse_collect_log_Some rs1_def)
    obtain k where k: "nat (N - int (length rs)) = Suc k"
      using False by (cases "nat (N - int (length rs))") auto
    have k1: "k1 = (if p r then k else Suc k)"
      using k by (auto simp: rs1_def k1_def)
    have "length rs2 = length rs1 + min k1 (length (filter p (preorder l)))"
      by (simp add: rs2_def)
    then have len2: "nat (N - int (length rs2)) = k1 - length (filter p (preorder l))"
      unfolding k1_def by (simp add: min_def split: if_splits)
    have res: "rs2 @ take (k1 - length (filter p (preorder l))) (filter p (preorder s)) =
        rs @ take (Suc k) (filter p (preorder (Node l r s)))"
      using k1 by (simp add: rs2_def rs1_def)
    have log: "lg2 @ tested_prefix (k1 - length (filter p (preorder l))) p (preorder s) =
        lg @ tested_prefix (Suc k) p (preorder (Node l r s))"
      using k1 by (simp add: lg2_def tested_prefix_append)
    show ?thesis
      using step res log len2 k by simp
  qed
qed

text \<open>
  Claim C3. On a finite tree, \<^verbatim>\<open>collectNodes\<close> with \<^verbatim>\<open>maxNodes = N\<close> returns, and
  what it returns is the first \<open>N\<close> matching nodes in depth-first pre-order: the list has
  at most \<open>N\<close> elements, and when it has fewer than \<open>N\<close> it is the list of all matching
  nodes of the tree. The nodes the predicate is applied to form a prefix of the
  pre-order that holds exactly the returned matches, and when \<open>N\<close> matches have been
  collected that prefix ends with the last of them (it is empty for \<open>N = 0\<close>): no node
  after the \<open>N\<close>-th match is tested.
\<close>

theorem collectNodes_first_matches_in_preorder:
  assumes "tree_at h (Some start) t"
  shows "\<exists>res tested.
           collectNodes h start p (int N) = Some res
         \<and> res = take N (filter p (preorder t))
         \<and> length res \<le> N
         \<and> (length res < N \<longrightarrow> res = filter p (preorder t))
         \<and> collectNodes_log h start p (int N) = Some (res, tested)
         \<and> prefix tested (preorder t)
         \<and> filter p tested = res
         \<and> (length res = N \<longrightarrow> tested = [] \<or> p (last tested))"
proof -
  define res where "res = take N (filter p (preorder t))"
  define tested where "tested = tested_prefix N p (preorder t)"
  have a: "collectNodes h start p (int N) = Some res"
    using traverse_collect_tree [OF assms, of p "int N" "[]"]
    by (simp add: collectNodes_def res_def)
  have b: "collectNodes_log h start p (int N) = Some (res, tested)"
    using traverse_collect_log_tree [OF assms, of p "int N" "[]" "[]"]
    by (simp add: collectNodes_log_def res_def tested_def)
  have c: "length res \<le> N" by (simp add: res_def)
  have d: "length res < N \<longrightarrow> res = filter p (preorder t)"
    by (auto simp: res_def)
  have e: "prefix tested (preorder t)"
    unfolding tested_def by (rule tested_prefix_is_prefix)
  have f: "filter p tested = res"
    by (simp add: tested_def res_def filter_tested_prefix)
  have g: "length res = N \<longrightarrow> tested = [] \<or> p (last tested)"
  proof
    assume len: "length res = N"
    show "tested = [] \<or> p (last tested)"
    proof (cases "N = 0")
      case True
      then show ?thesis by (simp add: tested_def)
    next
      case False
      then have "N \<le> length (filter p (preorder t))" "0 < N"
        using len by (auto simp: res_def)
      from tested_prefix_last [OF this] show ?thesis by (simp add: tested_def)
    qed
  qed
  from a b c d e f g show ?thesis unfolding res_def by blast
qed

theorem collectNodes_first_matches_witness:
  "collectNodes example_heap 0 is_below_root 2 = Some [1, 2]
   \<and> collectNodes example_heap 0 is_below_root 5 = Some [1, 2, 3]
   \<and> (\<exists>tested. collectNodes_log example_heap 0 is_below_root 1 = Some ([1], tested)
          \<and> prefix tested [0, 1, 2, 3] \<and> is_below_root (last tested))"
proof -
  have t: "tree_at example_heap (Some 0) example_tree"
    by (simp add: example_tree_def example_heap_def)
  have m: "filter is_below_root (preorder example_tree) = [1, 2, 3]"
    by (simp add: example_tree_def is_below_root_def)
  have pre: "preorder example_tree = [0, 1, 2, 3]"
    by (simp add: example_tree_def)
  note main = collectNodes_first_matches_in_preorder [OF t, where p = is_below_root]
  from main [of 2] have a: "collectNodes example_heap 0 is_below_root 2 = Some [1, 2]"
    by (auto simp: m)
  from main [of 5] have b: "collectNodes example_heap 0 is_below_root 5 = Some [1, 2, 3]"
    by (auto simp: m)
  from main [of 1] obtain tested where
    l: "collectNodes_log example_heap 0 is_below_root 1 = Some ([1], tested)"
    and p: "prefix tested (preorder example_tree)"
    and f: "filter is_below_root tested = [1]"
    and last: "tested = [] \<or> is_below_root (last tested)"
    by (auto simp: m)
  from f last have "is_below_root (last tested)" by auto
  with l p pre have "\<exists>tested. collectNodes_log example_heap 0 is_below_root 1 = Some ([1], tested)
          \<and> prefix tested [0, 1, 2, 3] \<and> is_below_root (last tested)"
    by auto
  with a b show ?thesis by simp
qed

section \<open>Properties of the record extraction pipeline\<close>

lemma is_object_iff: "is_object v \<longleftrightarrow> (\<exists>kvs. v = JObject kvs)"
  by (cases v) (simp_all add: is_object_def)

lemma parseString_ok_iff: "parseString v f = ok s \<longleftrightarrow> v = JString s"
  by (cases v) (simp_all add: parseString_def)

lemma parseString_err:
  "(\<forall>s. v \<noteq> JString s) \<Longrightarrow>
   parseString v f =
     err \<lparr>type = INVALID_PROPS,
          message = ''Expected string for '' @ f @ '', got '' @ typeof v\<rparr>"
  by (cases v) (simp_all add: parseString_def)

subsection \<open>parseSender\<close>

text \<open>
  Claim C4, as stated, lets \<^verbatim>\<open>parseSender\<close> succeed on every object in which an
  identifier is present. The object \<^verbatim>\<open>{id: 42}\<close> is an object and its identifier is
  present, yet the call fails with \<^verbatim>\<open>INVALID_PROPS\<close>: \<^verbatim>\<open>parseString\<close> rejects an
  identifier that is not a string.
\<close>

theorem parseSender_nonstring_id_counterexample:
  "is_object (JObject [(''id'', JNumber (Finite 42))])
   \<and> \<not> absent (getProp (JObject [(''id'', JNumber (Finite 42))]) ''id'')
   \<and> parseSender (JObject [(''id'', JNumber (Finite 42))]) =
       err \<lparr>type = INVALID_PROPS, message = ''Expected string for sender.id, got number''\<rparr>"
  by (simp add: is_object_def absent_def parseSender_def parseString_def)

text \<open>
  Claim C4, amended. \<^verbatim>\<open>parseSender\<close> fails with \<^verbatim>\<open>INVALID_PROPS\<close> if \<open>props\<close> is not
  an object, fails with \<^verbatim>\<open>MISSING_REQUIRED_FIELD\<close> if the identifier is absent, fails
  with \<^verbatim>\<open>INVALID_PROPS\<close> if the identifier is present but not a string, and otherwise
  succeeds, returning the identifier, a display name that falls back to the identifier
  when \<^verbatim>\<open>name\<close> is not a string, the push-name when it is a string, and the contact
  flag coerced by \<^verbatim>\<open>parseBoolean\<close>.
\<close>

theorem parseSender_cases:
  "(\<not> is_object props \<longrightarrow>
      parseSender props =
        err \<lparr>type = INVALID_PROPS, message = ''Sender props must be an object''\<rparr>)
   \<and> (is_object props \<and> absent (getProp props ''id'') \<longrightarrow>
      parseSender props =
        err \<lparr>type = MISSING_REQUIRED_FIELD, message = ''Sender ID is required''\<rparr>)
   \<and> (is_object props \<and> \<not> absent (getProp props ''id'')
        \<and> (\<forall>s. getProp props ''id'' \<noteq> JString s) \<longrightarrow>
      parseSender props =
        err \<lparr>type = INVALID_PROPS,
             message = ''Expected string for sender.id, got '' @ typeof (getProp props ''id'')\<rparr>)
   \<and> (is_object props \<and> getProp props ''id'' = JString i \<longrightarrow>
      parseSender props =
        ok \<lparr>id_sender = i,
            name_sender = (case getProp props ''name'' of JString n \<Rightarrow> n | _ \<Rightarrow> i),
            pushName = (case getProp props ''pushname'' of JString n \<Rightarrow> Some n | _ \<Rightarrow> None),
            isContact = parseBoolean (getProp props ''isContact'')\<rparr>)"
proof (intro conjI impI)
  assume "\<not> is_object props"
  then show "parseSender props =
      err \<lparr>type = INVALID_PROPS, message = ''Sender props must be an object''\<rparr>"
    by (auto simp: parseSender_def is_object_def)
next
  assume "is_object props \<and> absent (getProp props ''id'')"
  then show "parseSender props =
      err \<lparr>type = MISSING_REQUIRED_FIELD, message = ''Sender ID is required''\<rparr>"
    by (auto simp: parseSender_def is_object_def absent_def)
next
  assume a: "is_object props \<and> \<not> absent (getProp props ''id'')
      \<and> (\<forall>s. getProp props ''id'' \<noteq> JString s)"
  then have "parseString (getProp props ''id'') ''sender.id'' =
      err \<lparr>type = INVALID_PROPS,
           message = ''Expected string for '' @ ''sender.id'' @ '', got '' @
                     typeof (getProp props ''id'')\<rparr>"
    by (intro parseString_err) simp
  then show "parseSender props =
      err \<lparr>type = INVALID_PROPS,
           message = ''Expected string for sender.id, got '' @ typeof (getProp props ''id'')\<rparr>"
    using a by (simp add: parseSender_def is_object_def absent_def)
next
  assume a: "is_object props \<and> getProp props ''id'' = JString i"
  then have "parseString (getProp props ''id'') ''sender.id'' = ok i"
    by (simp add: parseString_ok_iff)
  moreover have "(case parseOptionalString (getProp props ''name'') of Some n \<Rightarrow> n | None \<Rightarrow> i) =
      (case getProp props ''name'' of JString n \<Rightarrow> n | _ \<Rightarrow> i)"
    by (cases "getProp props ''name''") (simp_all add: parseOptionalString_def)
  moreover have "parseOptionalString (getProp props ''pushname'') =
      (case getProp props ''pushname'' of JString n \<Rightarrow> Some n | _ \<Rightarrow> None)"
    by (simp add: parseOptionalString_def)
  ultimately show "parseSender props =
      ok \<lparr>id_sender = i,
          name_sender = (case getProp props ''name'' of JString n \<Rightarrow> n | _ \<Rightarrow> i),
          pushName = (case getProp props ''pushname'' of JString n \<Rightarrow> Some n | _ \<Rightarrow> None),
          isContact = parseBoolean (getProp props ''isContact'')\<rparr>"
    using a by (simp add: parseSender_def is_object_def)
qed

theorem parseSender_cases_witness:
  "parseSender (JNumber (Finite 7)) =
     err \<lparr>type = INVALID_PROPS, message = ''Sender props must be an object''\<rparr>
   \<and> parseSender (JObject []) =
     err \<lparr>type = MISSING_REQUIRED_FIELD, message = ''Sender ID is required''\<rparr>
   \<and> parseSender (JObject [(''id'', JBoolean True)]) =
     err \<lparr>type = INVALID_PROPS, message = ''Expected string for sender.id, got boolean''\<rparr>
   \<and> parseSender (JObject [(''id'', JString ''5511@c.us''), (''isContact'', JNumber (Finite 1))]) =
     ok \<lparr>id_sender = ''5511@c.us'', name_sender = ''5511@c.us'', pushName = None,
         isContact = True\<rparr>"
proof -
  note main = parseSender_cases
  have a: "parseSender (JNumber (Finite 7)) =
     err \<lparr>type = INVALID_PROPS, message = ''Sender props must be an object''\<rparr>"
    using main [of "JNumber (Finite 7)"] by (simp add: is_object_def)
  have b: "parseSender (JObject []) =
     err \<lparr>type = MISSING_REQUIRED_FIELD, message = ''Sender ID is required''\<rparr>"
    using main [of "JObject []"] by (simp add: is_object_def absent_def)
  have c: "parseSender (JObject [(''id'', JBoolean True)]) =
     err \<lparr>type = INVALID_PROPS, message = ''Expected string for sender.id, got boolean''\<rparr>"
    using main [of "JObject [(''id'', JBoolean True)]"]
    by (simp add: is_object_def absent_def)
  have d: "parseSender (JObject [(''id'', JString ''5511@c.us''), (''isContact'', JNumber (Finite 1))]) =
     ok \<lparr>id_sender = ''5511@c.us'', name_sender = ''5511@c.us'', pushName = None,
         isContact = True\<rparr>"
    using main [of "JObject [(''id'', JString ''5511@c.us''), (''isContact'', JNumber (Finite 1))]"
        "''5511@c.us''"]
    by (simp add: is_object_def parseBoolean_def)
  from a b c d show ?thesis by simp
qed

subsection \<open>parseMessage\<close>

lemma parseNumber_ok_iff: "parseNumber v f = ok n \<longleftrightarrow> v = JNumber n \<and> n \<noteq> NaN"
  by (cases v) (auto simp: parseNumber_def)

lemma parseMessage_ok_inputs:
  assumes "parseMessage uuid props = ok m"
  shows "is_object props \<and> (\<exists>i n. getProp props ''id'' = JString i
           \<and> getProp props ''t'' = JNumber n \<and> n \<noteq> NaN)"
proof -
  from assms have obj: "is_object props"
    by (auto simp: parseMessage_def is_object_def split: if_splits)
  from assms obtain i where i: "parseString (getProp props ''id'') ''id'' = ok i"
    by (cases "parseString (getProp props ''id'') ''id''")
       (auto simp: parseMessage_def split: if_splits)
  from assms i obtain n where n: "parseNumber (getProp props ''t'') ''timestamp'' = ok n"
    by (cases "parseNumber (getProp props ''t'') ''timestamp''")
       (auto simp: parseMessage_def split: if_splits)
  from obj i n show ?thesis
    by (auto simp: parseString_ok_iff parseNumber_ok_iff)
qed

lemma parseMessage_ok_value:
  assumes "is_object props" "getProp props ''id'' = JString i"
    "getProp props ''t'' = JNumber n" "n \<noteq> NaN"
  shows "parseMessage uuid props =
    ok \<lparr>id_message = i,
        timestamp = n,
        sender =
          \<lparr>id_sender =
             (case parseOptionalString (getProp props ''from'') of
                Some s \<Rightarrow> s
              | None \<Rightarrow> ''unknown''),
           name_sender =
             (case parseOptionalString (getProp props ''from'') of
                Some s \<Rightarrow> s
              | None \<Rightarrow> ''Unknown''),
           pushName = None,
           isContact = False\<rparr>,
        body =
          (case parseOptionalString (getProp props ''body'') of
             Some s \<Rightarrow> s
           | None \<Rightarrow> []),
        isFromMe = parseBoolean (getProp props ''self''),
        quotedMessageId =
          parseOptionalString
            (if typeof (getProp props ''quotedMsg'') = ''object''
                \<and> getProp props ''quotedMsg'' \<noteq> JNull
             then getProp (getProp props ''quotedMsg'') ''id''
             else JNull),
        attachments =
          (if getProp props ''mediaData'' \<noteq> JNull
              \<and> getProp props ''mediaData'' \<noteq> JUndefined
           then
             (case parseAttachment uuid (getProp props ''mediaData'') of
                ok attachment \<Rightarrow> [attachment]
              | err _ \<Rightarrow> [])
           else []),
        status = parseMessageStatus (getProp props ''ack''),
        isForwarded = parseBoolean (getProp props ''isForwarded''),
        isStarred = parseBoolean (getProp props ''isStarred'')\<rparr>"
proof -
  have "parseString (getProp props ''id'') ''id'' = ok i"
    using assms(2) by (simp add: parseString_ok_iff)
  moreover have "parseNumber (getProp props ''t'') ''timestamp'' = ok n"
    using assms(3,4) by (simp add: parseNumber_ok_iff)
  ultimately show ?thesis
    using assms by (simp add: parseMessage_def is_object_def)
qed

text \<open>
  Claim C5. \<^verbatim>\<open>parseMessage({})\<close> fails with \<^verbatim>\<open>MISSING_REQUIRED_FIELD\<close>,
  \<^verbatim>\<open>parseMessage({id: "x"})\<close> fails with \<^verbatim>\<open>MISSING_REQUIRED_FIELD\<close> for the missing
  timestamp, and \<^verbatim>\<open>parseMessage(null)\<close> fails with \<^verbatim>\<open>INVALID_PROPS\<close>. The identifier
  and the timestamp have a check each: on any object a missing identifier gives the
  message "Message ID is required", a present identifier with a missing timestamp gives
  "Message timestamp is required", and the two messages differ, so a caller can tell the
  cases apart.
\<close>

theorem parseMessage_required_fields:
  "parseMessage uuid (JObject []) =
     err \<lparr>type = MISSING_REQUIRED_FIELD, message = ''Message ID is required''\<rparr>
   \<and> parseMessage uuid (JObject [(''id'', JString ''x'')]) =
     err \<lparr>type = MISSING_REQUIRED_FIELD, message = ''Message timestamp is required''\<rparr>
   \<and> parseMessage uuid JNull =
     err \<lparr>type = INVALID_PROPS, message = ''Message props must be an object''\<rparr>
   \<and> (is_object props \<and> absent (getProp props ''id'') \<longrightarrow>
        parseMessage uuid props =
          err \<lparr>type = MISSING_REQUIRED_FIELD, message = ''Message ID is required''\<rparr>)
   \<and> (is_object props \<and> \<not> absent (getProp props ''id'') \<and> absent (getProp props ''t'') \<longrightarrow>
        parseMessage uuid props =
          err \<lparr>type = MISSING_REQUIRED_FIELD, message = ''Message timestamp is required''\<rparr>)
   \<and> ''Message ID is required'' \<noteq> ''Message timestamp is required''"
proof (intro conjI impI)
  show "parseMessage uuid (JObject []) =
     err \<lparr>type = MISSING_REQUIRED_FIELD, message = ''Message ID is required''\<rparr>"
    by (simp add: parseMessage_def)
next
  show "parseMessage uuid (JObject [(''id'', JString ''x'')]) =
     err \<lparr>type = MISSING_REQUIRED_FIELD, message = ''Message timestamp is required''\<rparr>"
    by (simp add: parseMessage_def)
next
  show "parseMessage uuid JNull =
     err \<lparr>type = INVALID_PROPS, message = ''Message props must be an object''\<rparr>"
    by (simp add: parseMessage_def)
next
  assume "is_object props \<and> absent (getProp props ''id'')"
  then show "parseMessage uuid props =
      err \<lparr>type = MISSING_REQUIRED_FIELD, message = ''Message ID is required''\<rparr>"
    by (auto simp: parseMessage_def is_object_def absent_def)
next
  assume "is_object props \<and> \<not> absent (getProp props ''id'') \<and> absent (getProp props ''t'')"
  then show "parseMessage uuid props =
      err \<lparr>type = MISSING_REQUIRED_FIELD, message = ''Message timestamp is required''\<rparr>"
    by (auto simp: parseMessage_def is_object_def absent_def)
next
  show "''Message ID is required'' \<noteq> ''Message timestamp is required''"
    by simp
qed

theorem parseMessage_required_fields_witness:
  "parseMessage ''u-1'' (JObject [(''t'', JNumber (Finite 1700000000))]) =
     err \<lparr>type = MISSING_REQUIRED_FIELD, message = ''Message ID is required''\<rparr>
   \<and> parseMessage ''u-1'' (JObject [(''id'', JNumber (Finite 5)), (''body'', JString ''hi'')]) =
     err \<lparr>type = MISSING_REQUIRED_FIELD, message = ''Message timestamp is required''\<rparr>"
proof -
  note main = parseMessage_required_fields
  have a: "parseMessage ''u-1'' (JObject [(''t'', JNumber (Finite 1700000000))]) =
     err \<lparr>type = MISSING_REQUIRED_FIELD, message = ''Message ID is required''\<rparr>"
    using main [of "''u-1''" "JObject [(''t'', JNumber (Finite 1700000000))]"]
    by (simp add: is_object_def absent_def)
  have b: "parseMessage ''u-1'' (JObject [(''id'', JNumber (Finite 5)), (''body'', JString ''hi'')]) =
     err \<lparr>type = MISSING_REQUIRED_FIELD, message = ''Message timestamp is required''\<rparr>"
    using main [of "''u-1''" "JObject [(''id'', JNumber (Finite 5)), (''body'', JString ''hi'')]"]
    by (simp add: is_object_def absent_def)
  from a b show ?thesis by simp
qed

text \<open>
  Claim C6. For every props object with a string identifier and a numeric timestamp
  that is not \<^verbatim>\<open>NaN\<close>, \<^verbatim>\<open>parseMessage\<close> succeeds with that identifier and timestamp,
  and the attachments list has at most one element: it is empty when the media-data
  field is absent; otherwise it holds the one attachment of a successful
  \<^verbatim>\<open>parseAttachment\<close>, and a failed \<^verbatim>\<open>parseAttachment\<close> leaves it empty without
  failing the message.
\<close>

theorem parseMessage_at_most_one_attachment:
  assumes "is_object props" "getProp props ''id'' = JString i"
    "getProp props ''t'' = JNumber n" "n \<noteq> NaN"
  shows "\<exists>m. parseMessage uuid props = ok m
           \<and> id_message m = i \<and> timestamp m = n
           \<and> length (attachments m) \<le> 1
           \<and> attachments m =
               (if absent (getProp props ''mediaData'') then []
                else case parseAttachment uuid (getProp props ''mediaData'') of
                       ok a \<Rightarrow> [a]
                     | err e \<Rightarrow> [])"
proof -
  note v = parseMessage_ok_value [OF assms, of uuid]
  show ?thesis
  proof (cases "parseAttachment uuid (getProp props ''mediaData'')")
    case (ok a)
    then show ?thesis unfolding v by (simp add: absent_def)
  next
    case (err e)
    then show ?thesis unfolding v by (simp add: absent_def)
  qed
qed

theorem parseMessage_at_most_one_attachment_witness:
  "(\<exists>m. parseMessage ''u-1'' message_with_image = ok m
        \<and> attachments m =
            [\<lparr>id_attachment = ''u-1'', type_attachment = Image, url = None,
              mimeType = ''application/octet-stream'', fileName = None, fileSize = None,
              thumbnailUrl = None, duration = None, width = None,
              height_attachment = None\<rparr>])
   \<and> (\<exists>m. parseMessage ''u-1'' message_with_bad_media = ok m \<and> attachments m = [])"
proof -
  note main = parseMessage_at_most_one_attachment
  have a1: "parseAttachment ''u-1'' (JObject [(''type'', JString ''image'')]) =
      ok \<lparr>id_attachment = ''u-1'', type_attachment = Image, url = None,
              mimeType = ''application/octet-stream'', fileName = None, fileSize = None,
              thumbnailUrl = None, duration = None, width = None,
              height_attachment = None\<rparr>"
    by (simp add: parseAttachment_def parseAttachmentType_def parseOptionalString_def
        parseOptionalNumber_def)
  have a2: "parseAttachment ''u-1'' (JObject [(''type'', JString ''gif'')]) =
      err \<lparr>type = INVALID_PROPS, message = ''Invalid attachment type''\<rparr>"
    by (simp add: parseAttachment_def parseAttachmentType_def)
  have "is_object message_with_image" "getProp message_with_image ''id'' = JString ''m1''"
    "getProp message_with_image ''t'' = JNumber (Finite 1700000000)"
    "Finite 1700000000 \<noteq> NaN"
    by (simp_all add: message_with_image_def is_object_def)
  from main [OF this, of "''u-1''"] have a: "\<exists>m. parseMessage ''u-1'' message_with_image = ok m
        \<and> attachments m =
            [\<lparr>id_attachment = ''u-1'', type_attachment = Image, url = None,
              mimeType = ''application/octet-stream'', fileName = None, fileSize = None,
              thumbnailUrl = None, duration = None, width = None,
              height_attachment = None\<rparr>]"
    by (auto simp: message_with_image_def absent_def a1)
  have "is_object message_with_bad_media"
    "getProp message_with_bad_media ''id'' = JString ''m2''"
    "getProp message_with_bad_media ''t'' = JNumber (Finite 1700000000)"
    "Finite 1700000000 \<noteq> NaN"
    by (simp_all add: message_with_bad_media_def is_object_def)
  from main [OF this, of "''u-1''"]
  have b: "\<exists>m. parseMessage ''u-1'' message_with_bad_media = ok m \<and> attachments m = []"
    by (auto simp: message_with_bad_media_def absent_def a2)
  from a b show ?thesis by simp
qed

text \<open>
  Claim C10. Whenever \<^verbatim>\<open>parseMessage\<close> succeeds, the sender of the message has no
  push-name and is not marked as a contact, whatever the input holds; when the
  \<^verbatim>\<open>from\<close> field is absent or not a string, the sender's identifier is "unknown" and
  its display name is "Unknown", which differ; when \<^verbatim>\<open>from\<close> is a string, both are
  that string. The sender is not the result of \<^verbatim>\<open>parseSender\<close>, which fails on an object
  without identifier and reads push-name and contact flag from its input.
\<close>

theorem parseMessage_inline_sender:
  assumes "parseMessage uuid props = ok m"
  shows "pushName (sender m) = None
       \<and> isContact (sender m) = False
       \<and> ((\<forall>s. getProp props ''from'' \<noteq> JString s) \<longrightarrow>
            id_sender (sender m) = ''unknown'' \<and> name_sender (sender m) = ''Unknown''
            \<and> name_sender (sender m) \<noteq> id_sender (sender m))
       \<and> (\<forall>s. getProp props ''from'' = JString s \<longrightarrow>
            id_sender (sender m) = s \<and> name_sender (sender m) = s)"
proof -
  from parseMessage_ok_inputs [OF assms] obtain i n where
    inp: "is_object props" "getProp props ''id'' = JString i"
      "getProp props ''t'' = JNumber n" "n \<noteq> NaN"
    by blast
  let ?from = "parseOptionalString (getProp props ''from'')"
  have s: "sender m =
      \<lparr>id_sender = (case ?from of Some s \<Rightarrow> s | None \<Rightarrow> ''unknown''),
       name_sender = (case ?from of Some s \<Rightarrow> s | None \<Rightarrow> ''Unknown''),
       pushName = None, isContact = False\<rparr>"
    using assms unfolding parseMessage_ok_value [OF inp, of uuid] by auto
  have none: "?from = None" if "\<forall>s. getProp props ''from'' \<noteq> JString s"
    using that by (cases "getProp props ''from''") (simp_all add: parseOptionalString_def)
  have some: "?from = Some s" if "getProp props ''from'' = JString s" for s
    using that by (simp add: parseOptionalString_def)
  show ?thesis
    using none some by (auto simp: s)
qed

theorem parseMessage_inline_sender_witness:
  "(\<exists>m. parseMessage ''u-1'' message_without_from = ok m
        \<and> sender m = \<lparr>id_sender = ''unknown'', name_sender = ''Unknown'',
                       pushName = None, isContact = False\<rparr>)
   \<and> parseSender message_without_from =
       ok \<lparr>id_sender = ''m3'', name_sender = ''m3'', pushName = Some ''Ann'',
           isContact = True\<rparr>"
proof -
  have "is_object message_without_from"
    "getProp message_without_from ''id'' = JString ''m3''"
    "getProp message_without_from ''t'' = JNumber (Finite 1700000000)"
    "Finite 1700000000 \<noteq> NaN"
    by (simp_all add: message_without_from_def is_object_def)
  from parseMessage_ok_value [OF this, of "''u-1''"]
  obtain m where m: "parseMessage ''u-1'' message_without_from = ok m"
    by blast
  have nofrom: "\<forall>s. getProp message_without_from ''from'' \<noteq> JString s"
    by (simp add: message_without_from_def)
  from parseMessage_inline_sender [OF m] nofrom
  have "sender m = \<lparr>id_sender = ''unknown'', name_sender = ''Unknown'',
                       pushName = None, isContact = False\<rparr>"
    by (cases "sender m") simp
  with m have a: "\<exists>m. parseMessage ''u-1'' message_without_from = ok m
        \<and> sender m = \<lparr>id_sender = ''unknown'', name_sender = ''Unknown'',
                       pushName = None, isContact = False\<rparr>"
    by blast
  have b: "parseSender message_without_from =
       ok \<lparr>id_sender = ''m3'', name_sender = ''m3'', pushName = Some ''Ann'',
           isContact = True\<rparr>"
    by (simp add: parseSender_def message_without_from_def parseString_def
        parseOptionalString_def parseBoolean_def)
  from a b show ?thesis by simp
qed

section \<open>Properties of the rate limiter\<close>

lemma tryConsume_cases:
  "tryConsume cfg t1 r t2 t3 count s =
     (let s1 = checkMandatoryPause cfg t1 r s in
      if (\<exists>u. pausedUntil s1 = Some u \<and> t2 < u) then (False, s1)
      else
        (let s3 = refillTokens cfg t3 (s1\<lparr>pausedUntil := None\<rparr>)
         in if tokens s3 < count then (False, s3)
            else (True, s3\<lparr>tokens := tokens s3 - count\<rparr>)))"
proof -
  have same: "x\<lparr>pausedUntil := None\<rparr> = x" if "pausedUntil x = None" for x :: RateLimiterState
    using that by (cases x) simp
  show ?thesis
    by (cases "pausedUntil (checkMandatoryPause cfg t1 r s)")
       (auto simp: tryConsume_def isPaused_def Let_def same)
qed

lemma tokens_checkMandatoryPause [simp]:
  "tokens (checkMandatoryPause cfg t1 r s) = tokens s"
  "lastRefill (checkMandatoryPause cfg t1 r s) = lastRefill s"
  by (simp_all add: checkMandatoryPause_def Let_def)

lemma tryConsume_success_state:
  assumes "tryConsume cfg t1 r t2 t3 count s = (True, s')"
  shows "tokens s' = min (maxTokens cfg) (tokens s + (t3 - lastRefill s) * refillRate cfg) - count
       \<and> count \<le> min (maxTokens cfg) (tokens s + (t3 - lastRefill s) * refillRate cfg)
       \<and> lastRefill s' = t3"
  using assms
  by (auto simp: tryConsume_cases refillTokens_def Let_def split: if_splits)

lemma tryConsume_failure_tokens:
  assumes "fst (tryConsume cfg t1 r t2 t3 count s) = False"
  shows "tokens (snd (tryConsume cfg t1 r t2 t3 count s)) = tokens s
       \<or> tokens (snd (tryConsume cfg t1 r t2 t3 count s)) =
           min (maxTokens cfg) (tokens s + (t3 - lastRefill s) * refillRate cfg)"
  using assms
  by (auto simp: tryConsume_cases refillTokens_def Let_def split: if_splits)

text \<open>
  Claim C7. For a limiter with \<open>maxTokens = 10\<close> and \<open>refillRate = 0.01\<close> per
  millisecond: when a \<^verbatim>\<open>tryConsume(10)\<close> has succeeded and the clock is 1000 ms (or
  more) past the reading of that call, \<^verbatim>\<open>getTokens()\<close> returns 10, the refill being
  capped at the maximum; at full capacity, with a clock that has not gone backwards,
  \<^verbatim>\<open>tryConsume(11)\<close> returns false and leaves the token count at 10. For every limiter,
  a \<^verbatim>\<open>tryConsume\<close> that returns false leaves the token count either untouched (the call
  was refused by a pause) or at its refilled value (the tokens were insufficient): the
  requested count is never subtracted, and under a clock that has not gone backwards,
  a non-negative refill rate and a token count within the maximum the tokens have not
  decreased.
\<close>

theorem tryConsume_capped_refill_and_no_partial_debit:
  "(maxTokens cfg = 10 \<and> refillRate cfg = 1 / 100
      \<and> tryConsume cfg t1 r t2 t3 10 s = (True, s') \<and> 1000 \<le> d \<longrightarrow>
        fst (getTokens cfg (t3 + d) s') = 10)
   \<and> (maxTokens cfg = 10 \<and> refillRate cfg = 1 / 100 \<and> tokens s = 10 \<and> lastRefill s \<le> t3 \<longrightarrow>
        fst (tryConsume cfg t1 r t2 t3 11 s) = False
        \<and> tokens (snd (tryConsume cfg t1 r t2 t3 11 s)) = 10)
   \<and> (fst (tryConsume cfg t1 r t2 t3 count s) = False \<longrightarrow>
        (tokens (snd (tryConsume cfg t1 r t2 t3 count s)) = tokens s
         \<or> tokens (snd (tryConsume cfg t1 r t2 t3 count s)) =
             min (maxTokens cfg) (tokens s + (t3 - lastRefill s) * refillRate cfg)))
   \<and> (fst (tryConsume cfg t1 r t2 t3 count s) = False
        \<and> 0 \<le> refillRate cfg \<and> lastRefill s \<le> t3 \<and> tokens s \<le> maxTokens cfg \<longrightarrow>
        tokens s \<le> tokens (snd (tryConsume cfg t1 r t2 t3 count s)))"
proof -
  have c1: "fst (getTokens cfg (t3 + d) s') = 10"
    if a: "maxTokens cfg = 10 \<and> refillRate cfg = 1 / 100
      \<and> tryConsume cfg t1 r t2 t3 10 s = (True, s') \<and> 1000 \<le> d"
  proof -
    from a have ok: "tryConsume cfg t1 r t2 t3 10 s = (True, s')" by simp
    from a have mt: "maxTokens cfg = 10" and rr: "refillRate cfg = 1 / 100" and d: "1000 \<le> d"
      by simp_all
    from tryConsume_success_state [OF ok] mt
    have z: "tokens s' = 0" "lastRefill s' = t3" by auto
    have "tokens (refillTokens cfg (t3 + d) s') = min 10 (d * (1 / 100))"
      unfolding refillTokens_def Let_def mt rr using z by simp
    moreover have "min 10 (d * (1 / 100)) = (10::real)"
      using d by simp
    ultimately have "tokens (refillTokens cfg (t3 + d) s') = 10"
      by simp
    then show ?thesis
      by (simp add: getTokens_def Let_def)
  qed
  have c2: "fst (tryConsume cfg t1 r t2 t3 11 s) = False
        \<and> tokens (snd (tryConsume cfg t1 r t2 t3 11 s)) = 10"
    if a: "maxTokens cfg = 10 \<and> refillRate cfg = 1 / 100 \<and> tokens s = 10 \<and> lastRefill s \<le> t3"
  proof -
    from a have mt: "maxTokens cfg = 10" and rr: "refillRate cfg = 1 / 100"
      and full: "tokens s = 10" and mono: "lastRefill s \<le> t3"
      by simp_all
    have m: "min 10 (10 + (t3 - lastRefill s) * (1 / 100)) = (10::real)"
      using mono by simp
    have t: "tokens (refillTokens cfg t3 x) = 10"
      if "tokens x = tokens s" "lastRefill x = lastRefill s" for x
      unfolding refillTokens_def Let_def mt rr using that full m by simp
    show ?thesis
      using full by (simp add: tryConsume_cases Let_def t)
  qed
  have c3: "tokens (snd (tryConsume cfg t1 r t2 t3 count s)) = tokens s
         \<or> tokens (snd (tryConsume cfg t1 r t2 t3 count s)) =
             min (maxTokens cfg) (tokens s + (t3 - lastRefill s) * refillRate cfg)"
    if "fst (tryConsume cfg t1 r t2 t3 count s) = False"
    using that by (rule tryConsume_failure_tokens)
  have c4: "tokens s \<le> tokens (snd (tryConsume cfg t1 r t2 t3 count s))"
    if a: "fst (tryConsume cfg t1 r t2 t3 count s) = False
        \<and> 0 \<le> refillRate cfg \<and> lastRefill s \<le> t3 \<and> tokens s \<le> maxTokens cfg"
  proof -
    from a have "0 \<le> (t3 - lastRefill s) * refillRate cfg" by simp
    then have "tokens s \<le> min (maxTokens cfg) (tokens s + (t3 - lastRefill s) * refillRate cfg)"
      using a by simp
    then show ?thesis
      using tryConsume_failure_tokens [of cfg t1 r t2 t3 count s] a by auto
  qed
  from c1 c2 c3 c4 show ?thesis by blast
qed

theorem tryConsume_capped_refill_witness:
  "tryConsume example_config 0 0 0 0 10 (createRateLimiter example_config 0 0) =
     (True, \<lparr>tokens = 0, lastRefill = 0, lastPauseCheck = 0, pausedUntil = None\<rparr>)
   \<and> fst (getTokens example_config 1000
            \<lparr>tokens = 0, lastRefill = 0, lastPauseCheck = 0, pausedUntil = None\<rparr>) = 10
   \<and> fst (tryConsume example_config 5 0 5 5 11 (createRateLimiter example_config 0 0)) = False
   \<and> tokens (snd (tryConsume example_config 5 0 5 5 11 (createRateLimiter example_config 0 0))) = 10"
proof -
  note main = tryConsume_capped_refill_and_no_partial_debit
  have c: "maxTokens example_config = 10" "refillRate example_config = 1 / 100"
    by (simp_all add: example_config_def)
  have a: "tryConsume example_config 0 0 0 0 10 (createRateLimiter example_config 0 0) =
     (True, \<lparr>tokens = 0, lastRefill = 0, lastPauseCheck = 0, pausedUntil = None\<rparr>)"
    by (simp add: tryConsume_def checkMandatoryPause_def isPaused_def refillTokens_def
        createRateLimiter_def example_config_def Let_def)
  from main [where cfg = example_config and ?t3.0 = 0 and d = 1000, OF] c a
  have b: "fst (getTokens example_config 1000
            \<lparr>tokens = 0, lastRefill = 0, lastPauseCheck = 0, pausedUntil = None\<rparr>) = 10"
    by (metis add_0 order_refl)
  have "tokens (createRateLimiter example_config 0 0) = 10"
    "lastRefill (createRateLimiter example_config 0 0) \<le> 5"
    by (simp_all add: createRateLimiter_def example_config_def)
  with main [where cfg = example_config and s = "createRateLimiter example_config 0 0"
      and ?t3.0 = 5 and ?t1.0 = 5 and ?t2.0 = 5 and r = 0] c
  have d: "fst (tryConsume example_config 5 0 5 5 11 (createRateLimiter example_config 0 0)) = False
   \<and> tokens (snd (tryConsume example_config 5 0 5 5 11 (createRateLimiter example_config 0 0))) = 10"
    by blast
  from a b d show ?thesis by simp
qed

text \<open>
  Claim C8. Whenever \<^verbatim>\<open>tryConsume\<close> is called and the time since the last pause check
  has reached \<^verbatim>\<open>pauseInterval\<close>, \<^verbatim>\<open>checkMandatoryPause\<close> arms a new pause window: it
  sets the pause-until value to the current time plus a duration
  \<open>min + random * (max - min)\<close>, which lies in the configured range, and advances the
  last-check timestamp to the current time. It does so whatever pause-until value the
  state held before, which is overwritten, and whatever count is asked for. After the
  whole call the last-check timestamp is the current time, and the pause-until value is
  the new one (and the call returns false) unless the clock reading of \<^verbatim>\<open>isPaused\<close>
  has already reached it, in which case \<^verbatim>\<open>isPaused\<close> has cleared it; the old value is
  gone in both cases.
\<close>

theorem tryConsume_arms_mandatory_pause:
  assumes due: "t1 - lastPauseCheck s \<ge> pauseInterval cfg"
  shows "checkMandatoryPause cfg t1 r s =
           s\<lparr>pausedUntil := Some (t1 + drawnPauseDuration cfg r), lastPauseCheck := t1\<rparr>
       \<and> lastPauseCheck (snd (tryConsume cfg t1 r t2 t3 count s)) = t1
       \<and> pausedUntil (snd (tryConsume cfg t1 r t2 t3 count s)) =
           (if t2 \<ge> t1 + drawnPauseDuration cfg r then None
            else Some (t1 + drawnPauseDuration cfg r))
       \<and> (t2 < t1 + drawnPauseDuration cfg r \<longrightarrow>
            fst (tryConsume cfg t1 r t2 t3 count s) = False)
       \<and> (0 \<le> r \<and> r \<le> 1 \<and> pauseDuration_min cfg \<le> pauseDuration_max cfg \<longrightarrow>
            pauseDuration_min cfg \<le> drawnPauseDuration cfg r
            \<and> drawnPauseDuration cfg r \<le> pauseDuration_max cfg)"
proof -
  define dur where "dur = drawnPauseDuration cfg r"
  have dur_def: "dur = pauseDuration_min cfg + r * (pauseDuration_max cfg - pauseDuration_min cfg)"
    by (simp add: dur_def drawnPauseDuration_def)
  have arm: "checkMandatoryPause cfg t1 r s =
      s\<lparr>pausedUntil := Some (t1 + dur), lastPauseCheck := t1\<rparr>"
    using due by (simp add: checkMandatoryPause_def Let_def dur_def)
  have chk: "lastPauseCheck (snd (tryConsume cfg t1 r t2 t3 count s)) = t1"
    by (simp add: tryConsume_cases arm Let_def refillTokens_def)
  have unt: "pausedUntil (snd (tryConsume cfg t1 r t2 t3 count s)) =
      (if t2 \<ge> t1 + dur then None else Some (t1 + dur))"
    by (simp add: tryConsume_cases arm Let_def refillTokens_def)
  have res: "t2 < t1 + dur \<longrightarrow> fst (tryConsume cfg t1 r t2 t3 count s) = False"
    by (simp add: tryConsume_cases arm Let_def)
  have rng: "pauseDuration_min cfg \<le> dur \<and> dur \<le> pauseDuration_max cfg"
    if a: "0 \<le> r \<and> r \<le> 1 \<and> pauseDuration_min cfg \<le> pauseDuration_max cfg"
  proof -
    define w where "w = pauseDuration_max cfg - pauseDuration_min cfg"
    have w: "0 \<le> w" using a by (simp add: w_def)
    have "0 \<le> r * w" using a w by simp
    moreover have "r * w \<le> 1 * w" using a w by (intro mult_right_mono) simp_all
    ultimately show ?thesis by (simp add: dur_def w_def)
  qed
  from arm chk unt res rng show ?thesis unfolding \<open>dur = drawnPauseDuration cfg r\<close> by blast
qed

theorem tryConsume_arms_mandatory_pause_witness:
  "tryConsume example_config 60000 (1 / 2) 60000 60000 1 paused_state =
     (False, \<lparr>tokens = 10, lastRefill = 0, lastPauseCheck = 60000, pausedUntil = Some 63500\<rparr>)"
proof -
  have due: "60000 - lastPauseCheck paused_state \<ge> pauseInterval example_config"
    by (simp add: paused_state_def example_config_def)
  note main = tryConsume_arms_mandatory_pause [OF due, of "1 / 2" 60000 60000 1]
  have dur: "drawnPauseDuration example_config (1 / 2) = 3500"
    by (simp add: drawnPauseDuration_def example_config_def)
  from main have r: "fst (tryConsume example_config 60000 (1 / 2) 60000 60000 1 paused_state) = False"
    and c: "lastPauseCheck (snd (tryConsume example_config 60000 (1 / 2) 60000 60000 1 paused_state)) = 60000"
    and u: "pausedUntil (snd (tryConsume example_config 60000 (1 / 2) 60000 60000 1 paused_state)) = Some 63500"
    unfolding dur by simp_all
  have t: "tokens (snd (tryConsume example_config 60000 (1 / 2) 60000 60000 1 paused_state)) = 10"
    "lastRefill (snd (tryConsume example_config 60000 (1 / 2) 60000 60000 1 paused_state)) = 0"
    by (simp_all add: tryConsume_cases checkMandatoryPause_def Let_def paused_state_def
        example_config_def)
  show ?thesis
    using r c u t
    by (cases "tryConsume example_config 60000 (1 / 2) 60000 60000 1 paused_state";
        cases "snd (tryConsume example_config 60000 (1 / 2) 60000 60000 1 paused_state)")
       simp
qed

section \<open>Properties of the drift fingerprint\<close>

lemma ToInt32_cong: "ToInt32 x = ToInt32 y \<longleftrightarrow> x mod 2 ^ 32 = y mod 2 ^ 32"
proof -
  have "(x + 2 ^ 31) mod 2 ^ 32 = (y + 2 ^ 31) mod 2 ^ 32 \<longleftrightarrow> x mod 2 ^ 32 = y mod 2 ^ 32"
    (is "?l \<longleftrightarrow> ?r")
  proof
    assume ?l
    then have "((x + 2 ^ 31) - 2 ^ 31) mod 2 ^ 32 = ((y + 2 ^ 31) - 2 ^ 31) mod (2 ^ 32 :: int)"
      by (rule mod_diff_cong) simp
    then show ?r by simp
  next
    assume ?r
    then show ?l by (rule mod_add_cong) simp
  qed
  then show ?thesis by (simp add: ToInt32_def)
qed

lemma ToInt32_mod: "ToInt32 x mod 2 ^ 32 = x mod 2 ^ 32"
proof -
  have "ToInt32 x mod 2 ^ 32 = ((x + 2 ^ 31) mod 2 ^ 32 - 2 ^ 31) mod 2 ^ 32"
    by (simp add: ToInt32_def)
  also have "\<dots> = ((x + 2 ^ 31) - 2 ^ 31) mod 2 ^ 32"
    by (simp only: mod_diff_left_eq)
  finally show ?thesis by simp
qed

lemma ToInt32_range: "- (2 ^ 31) \<le> ToInt32 x \<and> ToInt32 x < 2 ^ 31"
proof -
  have "0 \<le> (x + 2 ^ 31) mod 2 ^ 32" "(x + 2 ^ 31) mod 2 ^ 32 < (2 ^ 32 :: int)"
    by simp_all
  then show ?thesis by (simp add: ToInt32_def)
qed

text \<open>The wrap of the spec and \<^verbatim>\<open>ToInt32\<close> are the same function.\<close>

lemma spec_wrap32_eq: "spec_wrap32 x = ToInt32 x"
proof -
  have "spec_wrap32 x = signed_take_bit 31 x"
    by (simp add: spec_wrap32_def sint_sbintrunc')
  also have "\<dots> = take_bit (Suc 31) (x + 2 ^ 31) - 2 ^ 31"
    by (rule signed_take_bit_eq_take_bit_shift)
  also have "\<dots> = ToInt32 x"
    by (simp add: ToInt32_def take_bit_eq_mod)
  finally show ?thesis .
qed

text \<open>One step of the code's fold on a character whose first code unit is \<open>u\<close> is one
  step of the spec's hash on \<open>u\<close>: shifting by 5 and subtracting is multiplying by 31
  once the result is wrapped.\<close>

lemma hash_step_eq: "hash_step acc (u # us) = spec_hash_step acc u"
proof -
  define code where "code = uint u"
  have "(shiftLeft acc 5 - acc + code) mod 2 ^ 32 = (acc * 31 + code) mod 2 ^ 32"
  proof -
    have "shiftLeft acc 5 = ToInt32 (ToInt32 acc * 32)"
      by (simp add: shiftLeft_def)
    then have "shiftLeft acc 5 mod 2 ^ 32 = (ToInt32 acc * 32) mod 2 ^ 32"
      by (simp only: ToInt32_mod)
    also have "\<dots> = (acc * 32) mod 2 ^ 32"
      using ToInt32_mod [of acc] by (rule mod_mult_cong) simp
    finally have "shiftLeft acc 5 mod 2 ^ 32 = (acc * 32) mod 2 ^ 32" .
    then have "(shiftLeft acc 5 - acc) mod 2 ^ 32 = (acc * 32 - acc) mod 2 ^ 32"
      by (rule mod_diff_cong) simp
    then have "(shiftLeft acc 5 - acc + code) mod 2 ^ 32 = (acc * 32 - acc + code) mod 2 ^ 32"
      by (rule mod_add_cong) simp
    then show ?thesis by (simp add: algebra_simps)
  qed
  then have "ToInt32 (shiftLeft acc 5 - acc + code) = ToInt32 (acc * 31 + code)"
    by (simp add: ToInt32_cong)
  then show ?thesis
    by (simp add: hash_step_def spec_hash_step_def spec_wrap32_eq code_def)
qed

text \<open>The code's fold over the code points of a string is the spec's hash of the
  leading code units of the string.\<close>

lemma foldl_hash_step_Array_from:
  "foldl hash_step acc (Array_from s) = foldl spec_hash_step acc (leading_units s)"
proof (induction s arbitrary: acc rule: Array_from.induct)
  case 1
  show ?case by simp
next
  case (2 a)
  show ?case by (simp add: hash_step_eq)
next
  case (3 a b rest)
  show ?case
  proof (cases "is_high_surrogate a \<and> is_low_surrogate b")
    case True
    then show ?thesis
      using "3.IH"(1) [OF True, of "spec_hash_step acc a"] by (simp add: hash_step_eq)
  next
    case False
    then show ?thesis
      using "3.IH"(2) [OF False, of "spec_hash_step acc a"] by (auto simp: hash_step_eq)
  qed
qed

lemma leading_units_without_pair: "\<not> has_surrogate_pair s \<Longrightarrow> leading_units s = s"
  by (induction s rule: leading_units.induct) auto

lemma generateDomHash_of_parts_leading_units:
  "generateDomHash_of_parts parts =
     toString 16 (foldl spec_hash_step 0 (leading_units (join [0x7C] parts)))"
  by (simp add: generateDomHash_of_parts_def Let_def foldl_hash_step_Array_from)

text \<open>
  Claim C9, as stated, makes the code's fingerprint and the spec's polynomial rolling
  hash of the joined string agree on all inputs. On the single segment made of the code
  units D83D, DE00 (a surrogate pair) and 61 the code hashes D83D and 61 only and gives
  "1a2fc4", while the hash over the three code units of the string is "3469f5e".
\<close>

theorem generateDomHash_surrogate_pair_counterexample:
  "generateDomHash_of_parts [[0xD83D, 0xDE00, 0x61]] = ''1a2fc4''
   \<and> spec_fingerprint [[0xD83D, 0xDE00, 0x61]] = ''3469f5e''
   \<and> generateDomHash_of_parts [[0xD83D, 0xDE00, 0x61]] \<noteq> spec_fingerprint [[0xD83D, 0xDE00, 0x61]]"
proof -
  have code: "generateDomHash_of_parts [[0xD83D, 0xDE00, 0x61]] = ''1a2fc4''"
    by (simp add: generateDomHash_of_parts_def hash_step_def shiftLeft_def ToInt32_def
        toString_def digit_char_def is_high_surrogate_def is_low_surrogate_def)
  have spec: "spec_fingerprint [[0xD83D, 0xDE00, 0x61]] = ''3469f5e''"
    by (simp add: spec_fingerprint_def spec_hash_step_def spec_wrap32_eq ToInt32_def
        toString_def digit_char_def)
  show ?thesis
    unfolding code spec by simp
qed

text \<open>
  Claim C9, amended. For every sequence of probe segments, the fingerprint computed by
  folding \<^verbatim>\<open>((acc << 5) - acc + charCode) | 0\<close> over the elements of
  \<^verbatim>\<open>Array.from\<close> of the delimiter-joined string equals the polynomial rolling hash
  \<open>acc = acc * 31 + charCode\<close>, wrapped to a 32-bit signed integer at each step and
  rendered as a hexadecimal string, of the leading code units of that string: the low
  surrogate of a surrogate pair is not hashed. When the joined string has no surrogate
  pair the fingerprint equals the polynomial rolling hash of the whole string, and so
  does the fingerprint \<^verbatim>\<open>generateDomHash\<close> computes from the segments probed from a
  document.
\<close>

theorem generateDomHash_is_polynomial_hash_of_leading_units:
  "generateDomHash_of_parts parts =
     toString 16 (foldl spec_hash_step 0 (leading_units (join [0x7C] parts)))
   \<and> (\<not> has_surrogate_pair (join [0x7C] parts) \<longrightarrow>
        generateDomHash_of_parts parts = spec_fingerprint parts)
   \<and> (\<not> has_surrogate_pair
          (join [0x7C]
             (map (\<lambda>selector. probe_part toLowerCase (querySelector selector)) selectors)) \<longrightarrow>
        generateDomHash toLowerCase querySelector selectors =
          spec_fingerprint
            (map (\<lambda>selector. probe_part toLowerCase (querySelector selector)) selectors))"
proof -
  have whole: "generateDomHash_of_parts ps = spec_fingerprint ps"
    if "\<not> has_surrogate_pair (join [0x7C] ps)" for ps
    using leading_units_without_pair [OF that]
    by (simp add: generateDomHash_of_parts_leading_units spec_fingerprint_def)
  have a: "generateDomHash_of_parts parts =
      toString 16 (foldl spec_hash_step 0 (leading_units (join [0x7C] parts)))"
    by (rule generateDomHash_of_parts_leading_units)
  have b: "\<not> has_surrogate_pair (join [0x7C] parts) \<longrightarrow>
      generateDomHash_of_parts parts = spec_fingerprint parts"
    using whole by blast
  have c: "\<not> has_surrogate_pair
          (join [0x7C]
             (map (\<lambda>selector. probe_part toLowerCase (querySelector selector)) selectors)) \<longrightarrow>
        generateDomHash toLowerCase querySelector selectors =
          spec_fingerprint
            (map (\<lambda>selector. probe_part toLowerCase (querySelector selector)) selectors)"
    using whole by (simp add: generateDomHash_def)
  from a b c show ?thesis by blast
qed

theorem generateDomHash_is_polynomial_hash_witness:
  "\<not> has_surrogate_pair (join [0x7C] [[0x61, 0x62], [0x63]])
   \<and> generateDomHash_of_parts [[0x61, 0x62], [0x63]] = spec_fingerprint [[0x61, 0x62], [0x63]]
   \<and> spec_fingerprint [[0x61, 0x62], [0x63]] = ''2d9748''
   \<and> generateDomHash_of_parts [[0xD83D, 0xDE00, 0x61]] =
       toString 16 (foldl spec_hash_step 0 [0xD83D, 0x61])"
proof -
  note main = generateDomHash_is_polynomial_hash_of_leading_units
  have np: "\<not> has_surrogate_pair (join [0x7C] [[0x61, 0x62], [0x63]])"
    by (simp add: is_high_surrogate_def is_low_surrogate_def)
  from main [of "[[0x61, 0x62], [0x63]]"] np
  have eq: "generateDomHash_of_parts [[0x61, 0x62], [0x63]] =
      spec_fingerprint [[0x61, 0x62], [0x63]]"
    by blast
  have v: "spec_fingerprint [[0x61, 0x62], [0x63]] = ''2d9748''"
    by (simp add: spec_fingerprint_def spec_hash_step_def spec_wrap32_eq ToInt32_def
        toString_def digit_char_def)
  have lu: "leading_units (join [0x7C] [[0xD83D, 0xDE00, 0x61]]) = [0xD83D, 0x61]"
    by (simp add: is_high_surrogate_def is_low_surrogate_def)
  from main [of "[[0xD83D, 0xDE00, 0x61]]"]
  have pair: "generateDomHash_of_parts [[0xD83D, 0xDE00, 0x61]] =
       toString 16 (foldl spec_hash_step 0 [0xD83D, 0x61])"
    unfolding lu by blast
  from np eq v pair show ?thesis by blast
qed

text \<open>Fingerprints of the segments "ab" and "c" (the string "ab|c") and of the segments
  "li::" and "a", whose hash is negative; two strings that differ in the low surrogate
  of a pair have the same fingerprint. Then the segment of an absent element, and that
  of a \<^verbatim>\<open>div\<close> with the classes "b" and "a" and one data attribute.\<close>

lemma generateDomHash_examples:
  "generateDomHash_of_parts [[0x61, 0x62], [0x63]] = ''2d9748''"
  "generateDomHash_of_parts [[0x6c, 0x69, 0x3a, 0x3a], [0x61]] = ''-41d1b25e''"
  "generateDomHash_of_parts [[0xD83D, 0xDE00]] = generateDomHash_of_parts [[0xD83D, 0xDE01]]"
  by (simp_all add: generateDomHash_of_parts_def hash_step_def shiftLeft_def ToInt32_def
      toString_def digit_char_def is_high_surrogate_def is_low_surrogate_def)

lemma probe_part_examples:
  "probe_part lc None = js ''NOT_FOUND''"
  "probe_part (\<lambda>s. s)
     (Some \<lparr>tagName = js ''div'', classList = [js ''b'', js ''a''],
            attributes = [(js ''id'', js ''x''), (js ''data-k'', js ''v'')]\<rparr>) =
   js ''div:a,b:data-k=v''"
  by (simp_all add: probe_part_def js_def startsWith_def)

end
